theory Spec2Isabelle
  imports Main "HOL-Library.Char_ord" "HOL-Library.List_Lexorder"
begin

section \<open>Data model\<close>

text \<open>
  The Go package \<^verbatim>\<open>wikipedia\<close> keeps a \<^verbatim>\<open>Wiki\<close> handle (connection, \<^verbatim>\<open>initialized\<close>
  flag, \<^verbatim>\<open>ftsVersion\<close>) over an SQLite file with the tables \<^verbatim>\<open>articles\<close>,
  \<^verbatim>\<open>index_entries\<close> and the virtual table \<^verbatim>\<open>articles_fts\<close>. Go strings are byte
  sequences, so a string is a \<^typ>\<open>char list\<close> and \<^const>\<open>length\<close> is Go's \<^verbatim>\<open>len\<close>.
  The integers of the source (\<^verbatim>\<open>int\<close>, \<^verbatim>\<open>int64\<close>) are only compared, counted and
  stored; they are \<^typ>\<open>int\<close> and \<^typ>\<open>nat\<close> here.
\<close>

record Article =
  ID :: int
  Title :: string
  Namespace :: int
  Content :: string
  Redirect :: string

text \<open>
  \<^verbatim>\<open>Page\<close>, as the XML decoder fills it. Of \<^verbatim>\<open>[]Redirect\<close> only the \<^verbatim>\<open>title\<close>
  attribute exists; the revision metadata is never read by the package.
\<close>

record Page =
  page_Title :: string
  NS :: int
  page_ID :: int
  page_Redirect :: "string list"
  Text :: string

datatype fts_gen = FTS5 | FTS4

datatype scan_cause = ErrTooLong | ReadFailed

text \<open>
  Every error the package returns or logs. The same values name the calls into the
  database driver and the file system that can fail, for the oracle \<open>fault\<close> below.
\<close>

datatype failure =
    FailedToOpenDatabase
  | FailedToSetWALMode
  | FailedToSetCacheSize
  | FailedToCreateTables failure
  | FailedToCreateArticlesTable
  | FailedToCreateIndex string
  | FailedToCreateIndexEntriesTable
  | FailedToCreateIndexEntriesIndex
  | FailedToSelectFtsSql
  | FailedToCreateTrigger fts_gen string
  | FailedToOpenIndexFile
  | FailedToCreateBzip2Reader
  | FailedToBeginTransaction
  | FailedToPrepareStatement
  | FailedToCommitTransaction
  | FailedToCommitFinalTransaction
  | ScannerError scan_cause
  | FailedToInsertIndexEntry int int
  | FailedToQueryIndexEntries
  | FailedToOpenArticlesFile
  | FailedToInsertArticle int
  | ArticleNotFound string
  | ArticleNotFoundID int
  | SearchFailed

text \<open>The calls of \<^verbatim>\<open>log.Printf\<close>, in the order of the source.\<close>

datatype log_event =
    LogDetectedExisting string
  | LogFTS5NotAvailable
  | LogFTS4NotAvailable
  | LogTriggerWarning fts_gen string
  | LogUsing string
  | LogFTSNotAvailable
  | LogReadingIndex
  | LogErrorInsertingIndexEntry
  | LogProcessedIndexEntries nat
  | LogDoneLoadingIndex nat
  | LogFoundArticles nat
  | LogProcessingArticles
  | LogXMLDecodeError
  | LogErrorInsertingArticle int
  | LogProcessedArticles nat
  | LogDoneProcessingArticles nat
  | LogFTSQueryFailed

text \<open>
  What lies outside the package: the SQLite build and device (\<open>fault\<close> says which calls
  fail, \<open>fts5_module\<close> and \<open>fts4_module\<close> which full-text modules are compiled in,
  \<open>fts_match\<close> what the full-text engine answers to a MATCH expression: the titles of
  the matching rows in relevance order, or \<open>None\<close> when the query is refused), and the
  two Unicode library functions the package calls: \<^verbatim>\<open>strings.ToLower\<close> on input with
  non-ASCII bytes (\<open>unicode_lower\<close>) and \<^verbatim>\<open>cases.Title(language.AmericanEnglish)\<close>
  (\<open>title_case\<close>).
\<close>

record env =
  fault :: "failure \<Rightarrow> bool"
  fts5_module :: bool
  fts4_module :: bool
  fts_match :: "fts_gen \<Rightarrow> Article list \<Rightarrow> string \<Rightarrow> string list option"
  unicode_lower :: "string \<Rightarrow> string"
  title_case :: "string \<Rightarrow> string"

text \<open>
  The \<^verbatim>\<open>Wiki\<close> struct (\<open>initialized\<close>, \<open>ftsVersion\<close>, \<open>db_open\<close> for \<^verbatim>\<open>w.db != nil\<close>),
  the database file it is connected to (\<open>objects\<close>: the tables and indexes of
  \<^verbatim>\<open>sqlite_master\<close>; \<open>triggers\<close>; \<open>fts_table\<close>: the generation of \<^verbatim>\<open>articles_fts\<close>
  when it exists; the rows of \<open>articles\<close> and \<open>index_entries\<close>) and the log written so
  far. The paths of the struct are not modelled: the files are given by their
  contents.
\<close>

record world =
  initialized :: bool
  ftsVersion :: string
  db_open :: bool
  objects :: "string list"
  triggers :: "(string \<times> fts_gen) list"
  fts_table :: "fts_gen option"
  articles :: "Article list"
  index_entries :: "(int \<times> int) list"
  logged :: "log_event list"

definition say :: "log_event \<Rightarrow> world \<Rightarrow> world" where
  "say e s = s\<lparr>logged := logged s @ [e]\<rparr>"

text \<open>A new process over the same database file: \<^verbatim>\<open>NewWiki\<close> zeroes the struct.\<close>

definition NewWiki :: "world \<Rightarrow> world" where
  "NewWiki s = s\<lparr>initialized := False, ftsVersion := [], db_open := False\<rparr>"

definition empty_store :: world where
  "empty_store = \<lparr>initialized = False, ftsVersion = [], db_open = False, objects = [],
     triggers = [], fts_table = None, articles = [], index_entries = [], logged = []\<rparr>"

section \<open>Strings\<close>

definition byte :: "char \<Rightarrow> nat" where
  "byte c = of_char c"

text \<open>
  The letters of ASCII differ in case by the bit of value 32: \<^verbatim>\<open>A\<close>..\<^verbatim>\<open>Z\<close> are 65..90 and
  have it clear, \<^verbatim>\<open>a\<close>..\<^verbatim>\<open>z\<close> are 97..122 and have it set.
\<close>

definition ascii_lower :: "char \<Rightarrow> char" where
  "ascii_lower c =
     (if 65 \<le> byte c \<and> byte c \<le> 90
      then (case c of Char b0 b1 b2 b3 b4 b5 b6 b7 \<Rightarrow> Char b0 b1 b2 b3 b4 True b6 b7)
      else c)"

definition ascii_upper :: "char \<Rightarrow> char" where
  "ascii_upper c =
     (if 97 \<le> byte c \<and> byte c \<le> 122
      then (case c of Char b0 b1 b2 b3 b4 b5 b6 b7 \<Rightarrow> Char b0 b1 b2 b3 b4 False b6 b7)
      else c)"

text \<open>
  \<^verbatim>\<open>strings.ToLower\<close>: Go lowers \<^verbatim>\<open>A\<close>..\<^verbatim>\<open>Z\<close> bytewise when every byte is ASCII and
  maps runes through the Unicode tables otherwise.
\<close>

definition strings_ToLower :: "env \<Rightarrow> string \<Rightarrow> string" where
  "strings_ToLower env s =
     (if \<forall>c \<in> set s. byte c < 128 then map ascii_lower s else unicode_lower env s)"

fun HasPrefix :: "string \<Rightarrow> string \<Rightarrow> bool" where
  "HasPrefix s [] = True"
| "HasPrefix [] (p # ps) = False"
| "HasPrefix (c # cs) (p # ps) = (c = p \<and> HasPrefix cs ps)"

fun Contains :: "string \<Rightarrow> string \<Rightarrow> bool" where
  "Contains [] sub = (sub = [])"
| "Contains (c # cs) sub = (HasPrefix (c # cs) sub \<or> Contains cs sub)"

section \<open>Open and createTables\<close>

definition create_object :: "string \<Rightarrow> world \<Rightarrow> world" where
  "create_object name s =
     (if name \<in> set (objects s) then s else s\<lparr>objects := objects s @ [name]\<rparr>)"

definition create_trigger :: "fts_gen \<Rightarrow> string \<Rightarrow> world \<Rightarrow> world" where
  "create_trigger g name s =
     (if name \<in> fst ` set (triggers s) then s else s\<lparr>triggers := triggers s @ [(name, g)]\<rparr>)"

text \<open>The loop over \<^verbatim>\<open>indexes\<close>: the first failing statement ends \<^verbatim>\<open>createTables\<close>.\<close>

fun create_indexes :: "env \<Rightarrow> string list \<Rightarrow> world \<Rightarrow> failure option \<times> world" where
  "create_indexes env [] s = (None, s)"
| "create_indexes env (idx # rest) s =
     (if fault env (FailedToCreateIndex idx) then (Some (FailedToCreateIndex idx), s)
      else create_indexes env rest (create_object idx s))"

text \<open>The loops over \<^verbatim>\<open>triggers\<close>: a failing statement is logged and the loop goes on.\<close>

fun create_triggers :: "env \<Rightarrow> fts_gen \<Rightarrow> string list \<Rightarrow> world \<Rightarrow> world" where
  "create_triggers env g [] s = s"
| "create_triggers env g (t # ts) s =
     (if fault env (FailedToCreateTrigger g t)
      then create_triggers env g ts (say (LogTriggerWarning g t) s)
      else create_triggers env g ts (create_trigger g t s))"

definition trigger_names :: "string list" where
  "trigger_names = [''articles_ai'', ''articles_ad'', ''articles_au'']"

text \<open>
  The text \<^verbatim>\<open>sqlite_master\<close> keeps for \<^verbatim>\<open>articles_fts\<close>: the statement that created it
  (white space normalised).
\<close>

definition fts_ddl :: "fts_gen \<Rightarrow> string" where
  "fts_ddl g = (case g of
     FTS5 \<Rightarrow> ''CREATE VIRTUAL TABLE articles_fts USING fts5( title, content, content_rowid=id, content='articles' )''
   | FTS4 \<Rightarrow> ''CREATE VIRTUAL TABLE articles_fts USING fts4( title, content, content='articles' )'')"

definition module_available :: "env \<Rightarrow> fts_gen \<Rightarrow> bool" where
  "module_available env g = (case g of FTS5 \<Rightarrow> fts5_module env | FTS4 \<Rightarrow> fts4_module env)"

text \<open>
  \<^verbatim>\<open>CREATE VIRTUAL TABLE IF NOT EXISTS articles_fts USING ...\<close>: nothing happens when
  the table exists; otherwise the statement fails unless the module is compiled in.
  \<open>None\<close> is the error.
\<close>

definition exec_create_fts :: "env \<Rightarrow> fts_gen \<Rightarrow> world \<Rightarrow> world option" where
  "exec_create_fts env g s =
     (if fts_table s \<noteq> None then Some s
      else if module_available env g then Some (s\<lparr>fts_table := Some g\<rparr>)
      else None)"

text \<open>The branch of \<^verbatim>\<open>createTables\<close> that reads the version off the existing table.\<close>

definition detect_fts :: "env \<Rightarrow> string \<Rightarrow> world \<Rightarrow> string \<times> world" where
  "detect_fts env existingSQL s =
     (let v = (if Contains (strings_ToLower env existingSQL) ''fts5'' then ''fts5''
               else if Contains (strings_ToLower env existingSQL) ''fts4'' then ''fts4''
               else ''none'')
      in (v, say (LogDetectedExisting v) s))"

text \<open>The branch that tries generation 5, then generation 4, then gives up.\<close>

definition probe_fts :: "env \<Rightarrow> world \<Rightarrow> string \<times> world" where
  "probe_fts env s =
     (case exec_create_fts env FTS5 s of
        None \<Rightarrow>
          (let s1 = say LogFTS5NotAvailable s in
           case exec_create_fts env FTS4 s1 of
             None \<Rightarrow> (''none'', say LogFTS4NotAvailable s1)
           | Some s2 \<Rightarrow> (''fts4'', create_triggers env FTS4 trigger_names s2))
      | Some s1 \<Rightarrow> (''fts5'', create_triggers env FTS5 trigger_names s1))"

text \<open>
  \<^verbatim>\<open>QueryRow(SELECT sql FROM sqlite_master ...).Scan(&existingSQL)\<close>: an error (no row,
  or a failing query) leaves the empty string.
\<close>

definition select_fts_sql :: "env \<Rightarrow> world \<Rightarrow> string option" where
  "select_fts_sql env s =
     (if fault env FailedToSelectFtsSql then None else map_option fts_ddl (fts_table s))"

text \<open>
  The middle of \<^verbatim>\<open>createTables\<close>: find or create \<^verbatim>\<open>articles_fts\<close>, store the version
  in the struct and log it.
\<close>

definition setup_fts :: "env \<Rightarrow> world \<Rightarrow> world" where
  "setup_fts env s =
     (let (v, s3) =
            (case select_fts_sql env s of
               None \<Rightarrow> probe_fts env s
             | Some existingSQL \<Rightarrow>
                 if existingSQL \<noteq> [] then detect_fts env existingSQL s else probe_fts env s)
      in say (if v \<noteq> ''none'' then LogUsing v else LogFTSNotAvailable) (s3\<lparr>ftsVersion := v\<rparr>))"

definition createTables :: "env \<Rightarrow> world \<Rightarrow> failure option \<times> world" where
  "createTables env s =
     (if fault env FailedToCreateArticlesTable then (Some FailedToCreateArticlesTable, s)
      else
        case create_indexes env
               [''idx_articles_title'', ''idx_articles_namespace'', ''idx_articles_redirect'']
               (create_object ''articles'' s) of
          (Some e, s2) \<Rightarrow> (Some e, s2)
        | (None, s2) \<Rightarrow>
            if fault env FailedToCreateIndexEntriesTable
            then (Some FailedToCreateIndexEntriesTable, setup_fts env s2)
            else if fault env FailedToCreateIndexEntriesIndex
            then (Some FailedToCreateIndexEntriesIndex,
                  create_object ''index_entries'' (setup_fts env s2))
            else (None, create_object ''idx_index_entries_seek''
                          (create_object ''index_entries'' (setup_fts env s2))))"

definition Open :: "env \<Rightarrow> world \<Rightarrow> failure option \<times> world" where
  "Open env s =
     (if initialized s then (None, s)
      else if fault env FailedToOpenDatabase
      then (Some FailedToOpenDatabase, s\<lparr>db_open := False\<rparr>)
      else if fault env FailedToSetWALMode
      then (Some FailedToSetWALMode, s\<lparr>db_open := True\<rparr>)
      else if fault env FailedToSetCacheSize
      then (Some FailedToSetCacheSize, s\<lparr>db_open := True\<rparr>)
      else
        case createTables env (s\<lparr>db_open := True\<rparr>) of
          (Some e, s') \<Rightarrow> (Some (FailedToCreateTables e), s')
        | (None, s') \<Rightarrow> (None, s'\<lparr>initialized := True\<rparr>))"

text \<open>
  An SQLite build with both full-text modules, on a device without faults. Its full-text
  engine finds nothing, and its library functions are the identity beyond ASCII and raise
  the first letter.
\<close>

definition sqlite_full :: env where
  "sqlite_full = \<lparr>fault = (\<lambda>f. False), fts5_module = True, fts4_module = True,
     fts_match = (\<lambda>g rows expr. Some []), unicode_lower = (\<lambda>s. s),
     title_case = (\<lambda>s. case s of [] \<Rightarrow> [] | c # cs \<Rightarrow> ascii_upper c # cs)\<rparr>"

section \<open>The index file\<close>

definition maxTokenSize :: nat where
  "maxTokenSize = 16 * 1024"

definition dropCR :: "string \<Rightarrow> string" where
  "dropCR l = (if l \<noteq> [] \<and> last l = CHR 0x0D then butlast l else l)"

fun SplitN :: "string \<Rightarrow> char \<Rightarrow> nat \<Rightarrow> string list" where
  "SplitN s sep 0 = []"
| "SplitN s sep (Suc 0) = [s]"
| "SplitN s sep (Suc (Suc n)) =
     (if sep \<in> set s
      then takeWhile (\<lambda>c. c \<noteq> sep) s # SplitN (tl (dropWhile (\<lambda>c. c \<noteq> sep) s)) sep (Suc n)
      else [s])"

definition is_digit :: "char \<Rightarrow> bool" where
  "is_digit c = (48 \<le> byte c \<and> byte c \<le> 57)"

definition digits_value :: "string \<Rightarrow> nat" where
  "digits_value ds = foldl (\<lambda>a c. 10 * a + (byte c - 48)) 0 ds"

definition ParseInt :: "string \<Rightarrow> int option" where
  "ParseInt s =
     (let neg = (s \<noteq> [] \<and> hd s = CHR ''-'');
          ds = (if s \<noteq> [] \<and> (hd s = CHR ''+'' \<or> hd s = CHR ''-'') then tl s else s)
      in if ds = [] \<or> \<not> list_all is_digit ds then None
         else if neg then (if digits_value ds \<le> 2 ^ 63 then Some (- int (digits_value ds)) else None)
         else (if digits_value ds < 2 ^ 63 then Some (int (digits_value ds)) else None))"

definition parse_line :: "string \<Rightarrow> (int \<times> int) option" where
  "parse_line line =
     (let parts = SplitN line (CHR '':'') 3 in
      if length parts < 3 then None
      else case ParseInt (parts ! 0) of
             None \<Rightarrow> None
           | Some seek \<Rightarrow>
               (case ParseInt (parts ! 1) of None \<Rightarrow> None | Some aid \<Rightarrow> Some (seek, aid)))"


definition batchSize_index :: nat where
  "batchSize_index = 10000"

text \<open>\<^verbatim>\<open>INSERT OR IGNORE INTO index_entries\<close>: the primary key is the pair.\<close>

definition insert_or_ignore :: "int \<times> int \<Rightarrow> (int \<times> int) list \<Rightarrow> (int \<times> int) list" where
  "insert_or_ignore e rows = (if e \<in> set rows then rows else rows @ [e])"

primrec apply_inserts :: "(int \<times> int) list \<Rightarrow> (int \<times> int) list \<Rightarrow> (int \<times> int) list" where
  "apply_inserts rows [] = rows"
| "apply_inserts rows (e # es) = apply_inserts (insert_or_ignore e rows) es"

text \<open>
  A transaction is the list of the rows its statement has inserted so far; they reach
  the table at \<^verbatim>\<open>tx.Commit()\<close> and are lost when the function returns before it.
\<close>

definition commit_index :: "(int \<times> int) list \<Rightarrow> world \<Rightarrow> world" where
  "commit_index tx s = s\<lparr>index_entries := apply_inserts (index_entries s) tx\<rparr>"

definition final_commit_index ::
  "env \<Rightarrow> nat \<Rightarrow> (int \<times> int) list \<Rightarrow> world \<Rightarrow> failure option \<times> world" where
  "final_commit_index env i tx s =
     (if fault env FailedToCommitFinalTransaction
      then (Some FailedToCommitFinalTransaction, s)
      else (None, say (LogDoneLoadingIndex i) (commit_index tx s)))"

datatype 'tx step = Next nat 'tx world | Done "failure option \<times> world"

text \<open>
  One turn of \<^verbatim>\<open>for scanner.Scan()\<close> on the next line of the file. \<open>Next\<close> is
  \<^verbatim>\<open>continue\<close> (or the end of the body), \<open>Done\<close> is \<^verbatim>\<open>return\<close>, or \<^verbatim>\<open>break\<close>
  followed by the final commit. A line that does not fit the scanner's buffer of
  \<open>maxTokenSize\<close> bytes together with its newline makes \<^verbatim>\<open>Scan\<close> return false
  with \<^verbatim>\<open>bufio.ErrTooLong\<close>, which \<^verbatim>\<open>scanner.Err()\<close> hands to the \<^verbatim>\<open>return\<close> after
  the loop.
\<close>

definition index_step ::
  "env \<Rightarrow> int \<Rightarrow> string \<Rightarrow> nat \<Rightarrow> (int \<times> int) list \<Rightarrow> world \<Rightarrow> (int \<times> int) list step" where
  "index_step env limit raw i tx s =
     (if maxTokenSize \<le> length raw then Done (Some (ScannerError ErrTooLong), s)
      else
        case parse_line (dropCR raw) of
          None \<Rightarrow> Next i tx s
        | Some (seek, aid) \<Rightarrow>
            if fault env (FailedToInsertIndexEntry seek aid)
            then Next i tx (say LogErrorInsertingIndexEntry s)
            else if Suc i mod batchSize_index = 0
            then
              (if fault env FailedToCommitTransaction
               then Done (Some FailedToCommitTransaction, s)
               else
                 let s1 = say (LogProcessedIndexEntries (Suc i))
                            (commit_index (tx @ [(seek, aid)]) s)
                 in if fault env FailedToBeginTransaction
                    then Done (Some FailedToBeginTransaction, s1)
                    else if fault env FailedToPrepareStatement
                    then Done (Some FailedToPrepareStatement, s1)
                    else if 0 < limit \<and> limit \<le> int (Suc i)
                    then Done (final_commit_index env (Suc i) [] s1)
                    else Next (Suc i) [] s1)
            else if 0 < limit \<and> limit \<le> int (Suc i)
            then Done (final_commit_index env (Suc i) (tx @ [(seek, aid)]) s)
            else Next (Suc i) (tx @ [(seek, aid)]) s)"

fun index_loop ::
  "env \<Rightarrow> int \<Rightarrow> string list \<Rightarrow> nat \<Rightarrow> (int \<times> int) list \<Rightarrow> world \<Rightarrow> failure option \<times> world" where
  "index_loop env limit [] i tx s =
     (if fault env (ScannerError ReadFailed) then (Some (ScannerError ReadFailed), s)
      else final_commit_index env i tx s)"
| "index_loop env limit (raw # rest) i tx s =
     (case index_step env limit raw i tx s of
        Done r \<Rightarrow> r
      | Next i' tx' s' \<Rightarrow> index_loop env limit rest i' tx' s')"

text \<open>
  \<open>LoadIndex\<close>. The index file is given as the lines of its decompressed text (the
  bytes between newlines); \<open>fault env (ScannerError ReadFailed)\<close> says that reading
  fails after the last of them.
\<close>

definition LoadIndex :: "env \<Rightarrow> int \<Rightarrow> string list \<Rightarrow> world \<Rightarrow> failure option \<times> world" where
  "LoadIndex env limit file s =
     (case Open env s of
        (Some e, s1) \<Rightarrow> (Some e, s1)
      | (None, s1) \<Rightarrow>
          if fault env FailedToOpenIndexFile then (Some FailedToOpenIndexFile, s1)
          else if fault env FailedToCreateBzip2Reader then (Some FailedToCreateBzip2Reader, s1)
          else if fault env FailedToBeginTransaction
          then (Some FailedToBeginTransaction, say LogReadingIndex s1)
          else if fault env FailedToPrepareStatement
          then (Some FailedToPrepareStatement, say LogReadingIndex s1)
          else index_loop env limit file 0 [] (say LogReadingIndex s1))"

text \<open>The effect of committed inserts and of logging on the state, for the proofs.\<close>

definition eff :: "log_event list \<Rightarrow> (int \<times> int) list \<Rightarrow> world \<Rightarrow> world" where
  "eff evs txc s = s\<lparr>index_entries := apply_inserts (index_entries s) txc, logged := logged s @ evs\<rparr>"


text \<open>What \<open>Open\<close> and \<open>createTables\<close> leave alone.\<close>

definition same_rows :: "world \<Rightarrow> world \<Rightarrow> bool" where
  "same_rows s s' \<longleftrightarrow>
     articles s' = articles s \<and> index_entries s' = index_entries s \<and> initialized s' = initialized s"


text \<open>The pairs that the lines of an index file denote, in order.\<close>

definition index_pairs :: "string list \<Rightarrow> (int \<times> int) list" where
  "index_pairs ls = List.map_filter (\<lambda>raw. parse_line (dropCR raw)) ls"

definition line_16KiB :: string where
  "line_16KiB = ''1:2:'' @ replicate 16380 (CHR ''a'')"

definition line_20000 :: string where
  "line_20000 = ''1:2:'' @ replicate 19996 (CHR ''a'')"

text \<open>A small index file: a duplicated line, a malformed line, a second article.\<close>

definition sample_index :: "string list" where
  "sample_index = [''597:10:AccessibleComputing'', ''597:10:AccessibleComputing'',
     ''no colons here'', ''597:12:Anarchism'']"

section \<open>The article dump\<close>

text \<open>
  What \<^verbatim>\<open>decoder.Decode(&page)\<close> returns, call after call: a page; an error after which
  the decoder reads on (an element that is no page, a value that does not fit its
  field); or an error of syntax or of reading, which \<^verbatim>\<open>encoding/xml\<close> keeps and returns
  again at every later call, a file that ends inside an element among them. The dump is
  the list of these results; at its end the decoder returns \<^verbatim>\<open>io.EOF\<close>. What stands after
  a \<open>SyntaxError\<close> is never read.
\<close>

datatype decoded = DecodeError | Decoded Page | SyntaxError

text \<open>
  How a run ends: it returns \<^verbatim>\<open>nil\<close> or an error, or it never returns. With \<open>Hangs\<close> the
  state is the database as it stays from then on; the log records once the line that is
  written again and again.
\<close>

datatype outcome = Returns "failure option" | Hangs

definition maxContent :: nat where
  "maxContent = 10 * 1024 * 1024"

definition batchSize_articles :: nat where
  "batchSize_articles = 1000"

text \<open>\<^verbatim>\<open>if len(content) > 10*1024*1024 { content = content[:10*1024*1024] }\<close>\<close>

definition truncate_content :: "string \<Rightarrow> string" where
  "truncate_content content =
     (if maxContent < length content then take maxContent content else content)"

definition first_redirect :: "Page \<Rightarrow> string" where
  "first_redirect page = (case page_Redirect page of [] \<Rightarrow> [] | r # rs \<Rightarrow> r)"

text \<open>The row that \<^verbatim>\<open>stmt.Exec(page.ID, page.Title, page.NS, content, redirect)\<close> writes.\<close>

definition article_of :: "Page \<Rightarrow> Article" where
  "article_of page =
     \<lparr>ID = page_ID page, Title = page_Title page, Namespace = NS page,
      Content = truncate_content (Text page), Redirect = first_redirect page\<rparr>"

text \<open>
  \<^verbatim>\<open>INSERT OR REPLACE INTO articles\<close>: the row with the same primary key \<^verbatim>\<open>id\<close> is
  deleted, the new row is inserted.
\<close>

definition upsert :: "Article \<Rightarrow> Article list \<Rightarrow> Article list" where
  "upsert a rows = filter (\<lambda>r. ID r \<noteq> ID a) rows @ [a]"

primrec apply_upserts :: "Article list \<Rightarrow> Article list \<Rightarrow> Article list" where
  "apply_upserts rows [] = rows"
| "apply_upserts rows (a # as) = apply_upserts (upsert a rows) as"

definition commit_articles :: "Article list \<Rightarrow> world \<Rightarrow> world" where
  "commit_articles tx s = s\<lparr>articles := apply_upserts (articles s) tx\<rparr>"

definition final_commit_articles ::
  "env \<Rightarrow> nat \<Rightarrow> Article list \<Rightarrow> world \<Rightarrow> outcome \<times> world" where
  "final_commit_articles env processed tx s =
     (if fault env FailedToCommitFinalTransaction
      then (Returns (Some FailedToCommitFinalTransaction), s)
      else (Returns None, say (LogDoneProcessingArticles processed) (commit_articles tx s)))"

text \<open>
  \<^verbatim>\<open>SELECT DISTINCT article_id FROM index_entries\<close>, collected in \<^verbatim>\<open>indexSet\<close>.
\<close>

definition index_set :: "world \<Rightarrow> int set" where
  "index_set s = snd ` set (index_entries s)"

text \<open>The two \<^verbatim>\<open>continue\<close> tests at the head of the loop body, negated.\<close>

definition kept :: "int set \<Rightarrow> Page \<Rightarrow> bool" where
  "kept indexSet page \<longleftrightarrow> NS page = 0 \<and> page_ID page \<in> indexSet"

text \<open>
  One turn of the decoding loop. The state between turns is \<^verbatim>\<open>processed\<close>, \<^verbatim>\<open>count\<close> and
  the rows written in the open transaction. On an error that is not \<^verbatim>\<open>io.EOF\<close> the loop
  logs and asks the decoder again; when the error is one the decoder repeats, every
  later turn does the same: the loop never ends, and the rows of the open transaction
  are never committed.
\<close>

datatype turn = Again nat "nat \<times> Article list" world | Stop "outcome \<times> world"

definition article_step ::
  "env \<Rightarrow> int \<Rightarrow> int set \<Rightarrow> decoded \<Rightarrow> nat \<Rightarrow> nat \<times> Article list \<Rightarrow> world
     \<Rightarrow> turn" where
  "article_step env limit indexSet d processed ctx s =
     (case d of
        DecodeError \<Rightarrow> Again processed ctx (say LogXMLDecodeError s)
      | SyntaxError \<Rightarrow> Stop (Hangs, say LogXMLDecodeError s)
      | Decoded page \<Rightarrow>
          if NS page \<noteq> 0 then Again processed ctx s
          else if page_ID page \<notin> indexSet then Again processed ctx s
          else if fault env (FailedToInsertArticle (page_ID page))
          then Again processed ctx (say (LogErrorInsertingArticle (page_ID page)) s)
          else if batchSize_articles \<le> Suc (fst ctx)
          then
            (if fault env FailedToCommitTransaction
             then Stop (Returns (Some FailedToCommitTransaction), s)
             else
               let s1 = say (LogProcessedArticles (Suc processed))
                          (commit_articles (snd ctx @ [article_of page]) s)
               in if fault env FailedToBeginTransaction
                  then Stop (Returns (Some FailedToBeginTransaction), s1)
                  else if fault env FailedToPrepareStatement
                  then Stop (Returns (Some FailedToPrepareStatement), s1)
                  else if 0 < limit \<and> limit \<le> int (Suc processed)
                  then Stop (final_commit_articles env (Suc processed) [] s1)
                  else Again (Suc processed) (0, []) s1)
          else if 0 < limit \<and> limit \<le> int (Suc processed)
          then Stop (final_commit_articles env (Suc processed) (snd ctx @ [article_of page]) s)
          else Again (Suc processed) (Suc (fst ctx), snd ctx @ [article_of page]) s)"

fun articles_loop ::
  "env \<Rightarrow> int \<Rightarrow> int set \<Rightarrow> decoded list \<Rightarrow> nat \<Rightarrow> nat \<times> Article list \<Rightarrow> world
     \<Rightarrow> outcome \<times> world" where
  "articles_loop env limit indexSet [] processed ctx s =
     final_commit_articles env processed (snd ctx) s"
| "articles_loop env limit indexSet (d # rest) processed ctx s =
     (case article_step env limit indexSet d processed ctx s of
        Stop r \<Rightarrow> r
      | Again processed' ctx' s' \<Rightarrow> articles_loop env limit indexSet rest processed' ctx' s')"

definition ProcessArticles ::
  "env \<Rightarrow> int \<Rightarrow> decoded list \<Rightarrow> world \<Rightarrow> outcome \<times> world" where
  "ProcessArticles env limit dump s =
     (case Open env s of
        (Some e, s1) \<Rightarrow> (Returns (Some e), s1)
      | (None, s1) \<Rightarrow>
          if fault env FailedToQueryIndexEntries then (Returns (Some FailedToQueryIndexEntries), s1)
          else
            let s2 = say (LogFoundArticles (card (index_set s1))) s1
            in if fault env FailedToOpenArticlesFile then (Returns (Some FailedToOpenArticlesFile), s2)
               else if fault env FailedToBeginTransaction
               then (Returns (Some FailedToBeginTransaction), s2)
               else if fault env FailedToPrepareStatement
               then (Returns (Some FailedToPrepareStatement), s2)
               else if fault env FailedToCreateBzip2Reader
               then (Returns (Some FailedToCreateBzip2Reader), s2)
               else articles_loop env limit (index_set s1) dump 0 (0, [])
                      (say LogProcessingArticles s2))"

text \<open>The pages of a dump, and the rows of those the filter keeps.\<close>

definition pages :: "decoded list \<Rightarrow> Page list" where
  "pages dump =
     List.map_filter (\<lambda>d. case d of Decoded p \<Rightarrow> Some p | DecodeError \<Rightarrow> None | SyntaxError \<Rightarrow> None)
       dump"

definition kept_rows :: "int set \<Rightarrow> decoded list \<Rightarrow> Article list" where
  "kept_rows indexSet dump = map article_of (filter (kept indexSet) (pages dump))"

text \<open>The byte sequences that Go's \<^verbatim>\<open>utf8.ValidString\<close> accepts (RFC 3629).\<close>

definition cont :: "char \<Rightarrow> bool" where
  "cont c \<longleftrightarrow> 128 \<le> byte c \<and> byte c \<le> 191"

definition second_of3 :: "char \<Rightarrow> char \<Rightarrow> bool" where
  "second_of3 b c \<longleftrightarrow>
     (if byte b = 224 then 160 \<le> byte c \<and> byte c \<le> 191
      else if byte b = 237 then 128 \<le> byte c \<and> byte c \<le> 159
      else cont c)"

definition second_of4 :: "char \<Rightarrow> char \<Rightarrow> bool" where
  "second_of4 b c \<longleftrightarrow>
     (if byte b = 240 then 144 \<le> byte c \<and> byte c \<le> 191
      else if byte b = 244 then 128 \<le> byte c \<and> byte c \<le> 143
      else cont c)"

fun utf8_valid :: "string \<Rightarrow> bool" where
  "utf8_valid [] = True"
| "utf8_valid (b # bs) =
     (if byte b < 128 then utf8_valid bs
      else if 194 \<le> byte b \<and> byte b \<le> 223
      then (case bs of c1 # r \<Rightarrow> cont c1 \<and> utf8_valid r | _ \<Rightarrow> False)
      else if 224 \<le> byte b \<and> byte b \<le> 239
      then (case bs of
              c1 # c2 # r \<Rightarrow> second_of3 b c1 \<and> cont c2 \<and> utf8_valid r
            | _ \<Rightarrow> False)
      else if 240 \<le> byte b \<and> byte b \<le> 244
      then (case bs of
              c1 # c2 # c3 # r \<Rightarrow> second_of4 b c1 \<and> cont c2 \<and> cont c3 \<and> utf8_valid r
            | _ \<Rightarrow> False)
      else False)"

text \<open>
  A page whose text is 10 MiB + 1 bytes of valid UTF-8: 10 MiB - 1 letters and the two
  bytes of U+00E9.
\<close>

definition big_text :: string where
  "big_text = replicate 10485759 (CHR ''a'') @ [CHR 0xC3, CHR 0xA9]"

definition big_page :: Page where
  "big_page = \<lparr>page_Title = ''Big'', NS = 0, page_ID = 10, page_Redirect = [], Text = big_text\<rparr>"

text \<open>Three pages for the examples: a redirect, an article and a talk page.\<close>

definition accessible_page :: Page where
  "accessible_page = \<lparr>page_Title = ''AccessibleComputing'', NS = 0, page_ID = 10,
     page_Redirect = [''Computer accessibility''], Text = []\<rparr>"

definition anarchism_page :: Page where
  "anarchism_page = \<lparr>page_Title = ''Anarchism'', NS = 0, page_ID = 12,
     page_Redirect = [], Text = ''Anarchism is a political philosophy''\<rparr>"

definition talk_page :: Page where
  "talk_page = \<lparr>page_Title = ''Talk:Anarchism'', NS = 1, page_ID = 13,
     page_Redirect = [], Text = ''talk''\<rparr>"

text \<open>An article that the index does not list.\<close>

definition orphan_page :: Page where
  "orphan_page = \<lparr>page_Title = ''Orphan'', NS = 0, page_ID = 99, page_Redirect = [],
     Text = ''not indexed''\<rparr>"

definition exact_page :: Page where
  "exact_page = \<lparr>page_Title = ''Exact'', NS = 0, page_ID = 12, page_Redirect = [],
     Text = replicate 10485760 (CHR ''a'')\<rparr>"

text \<open>An empty database whose index lists the articles 10, 12 and 13.\<close>

definition indexed_store :: world where
  "indexed_store = empty_store\<lparr>index_entries := [(597, 10), (597, 12), (597, 13)]\<rparr>"

definition sample_dump :: "decoded list" where
  "sample_dump = [Decoded accessible_page, DecodeError, Decoded anarchism_page, Decoded talk_page]"

text \<open>The same dump with the article that is not indexed, and one that breaks off.\<close>

definition filter_dump :: "decoded list" where
  "filter_dump = [Decoded accessible_page, DecodeError, Decoded orphan_page,
     Decoded anarchism_page, Decoded talk_page]"

definition broken_dump :: "decoded list" where
  "broken_dump = [Decoded accessible_page, SyntaxError, Decoded anarchism_page]"

text \<open>The effect of committed upserts and of logging on the state, for the proofs.\<close>

definition effA :: "log_event list \<Rightarrow> Article list \<Rightarrow> world \<Rightarrow> world" where
  "effA evs txc s = s\<lparr>articles := apply_upserts (articles s) txc, logged := logged s @ evs\<rparr>"

text \<open>Where the rows that a run of the loop commits come from.\<close>

definition origin :: "int set \<Rightarrow> decoded list \<Rightarrow> Article list \<Rightarrow> Article set" where
  "origin S dump tx = set tx \<union> {article_of p | p. Decoded p \<in> set dump \<and> kept S p}"

section \<open>Queries\<close>

text \<open>SQLite's \<^verbatim>\<open>LOWER()\<close> folds the letters of ASCII only.\<close>

definition sql_lower :: "string \<Rightarrow> string" where
  "sql_lower s = map ascii_lower s"

text \<open>
  The lower case of a byte by its value, \<^verbatim>\<open>c += 'a' - 'A'\<close> for \<^verbatim>\<open>'A' <= c <= 'Z'\<close>: what
  the folds are measured against.
\<close>

definition lower_letter :: "char \<Rightarrow> char" where
  "lower_letter c = (if 65 \<le> byte c \<and> byte c \<le> 90 then char_of (byte c + 32) else c)"

text \<open>
  \<open>GetArticle\<close>. \<^verbatim>\<open>QueryRow(...).Scan(...)\<close> yields the first matching row or an error;
  the source treats every error as no row. Neither statement has an \<^verbatim>\<open>ORDER BY\<close>: the
  engine walks the index of titles, or the table, in ascending \<^verbatim>\<open>id\<close>, so of several
  matching rows the one with the lowest \<^verbatim>\<open>id\<close> comes first.
\<close>

definition first_row :: "(Article \<Rightarrow> bool) \<Rightarrow> Article list \<Rightarrow> Article option" where
  "first_row P rows = find P (sort_key ID rows)"

definition GetArticle :: "env \<Rightarrow> string \<Rightarrow> world \<Rightarrow> (failure + Article) \<times> world" where
  "GetArticle env title s =
     (case Open env s of
        (Some e, s1) \<Rightarrow> (Inl e, s1)
      | (None, s1) \<Rightarrow>
          (case first_row (\<lambda>r. Title r = title) (articles s1) of
             Some article \<Rightarrow> (Inr article, s1)
           | None \<Rightarrow>
               (let titleCase = title_case env (strings_ToLower env title)
                in case first_row (\<lambda>r. sql_lower (Title r) = sql_lower titleCase) (articles s1) of
                     None \<Rightarrow> (Inl (ArticleNotFound title), s1)
                   | Some article \<Rightarrow> (Inr article, s1))))"

definition GetArticleByID :: "env \<Rightarrow> int \<Rightarrow> world \<Rightarrow> (failure + Article) \<times> world" where
  "GetArticleByID env i s =
     (case Open env s of
        (Some e, s1) \<Rightarrow> (Inl e, s1)
      | (None, s1) \<Rightarrow>
          (case first_row (\<lambda>r. ID r = i) (articles s1) of
             None \<Rightarrow> (Inl (ArticleNotFoundID i), s1)
           | Some article \<Rightarrow> (Inr article, s1)))"

text \<open>\<^verbatim>\<open>strings.ReplaceAll\<close> for a pattern of one byte.\<close>

definition ReplaceAll :: "string \<Rightarrow> char \<Rightarrow> string \<Rightarrow> string" where
  "ReplaceAll s old new = concat (map (\<lambda>c. if c = old then new else [c]) s)"

definition fts_query_of :: "string \<Rightarrow> string" where
  "fts_query_of query =
     ReplaceAll (ReplaceAll query (CHR 0x22) [CHR 0x22, CHR 0x22]) (CHR 0x27) [CHR 0x27, CHR 0x27]
       @ ''*''"

text \<open>
  The columns a statement can name on \<^verbatim>\<open>articles_fts\<close>: the declared ones, the hidden
  column named after the table, the row id, and for generation 5 the hidden \<^verbatim>\<open>rank\<close>.
\<close>

definition fts_columns :: "fts_gen \<Rightarrow> string list" where
  "fts_columns g = (case g of
     FTS5 \<Rightarrow> [''title'', ''content'', ''articles_fts'', ''rowid'', ''rank'']
   | FTS4 \<Rightarrow> [''title'', ''content'', ''articles_fts'', ''rowid'', ''docid''])"

text \<open>
  \<^verbatim>\<open>SELECT DISTINCT title FROM articles_fts WHERE articles_fts MATCH ? ORDER BY\<close> \<open>order_by\<close>
  \<^verbatim>\<open>LIMIT ?\<close>. \<^verbatim>\<open>db.Query\<close> prepares the statement and binds its parameters; it fails
  when the table or its module is missing or when the ordering column is no column of
  the table.
\<close>

definition prepare_fails :: "env \<Rightarrow> string \<Rightarrow> world \<Rightarrow> bool" where
  "prepare_fails env order_by s \<longleftrightarrow>
     (case fts_table s of
        None \<Rightarrow> True
      | Some g \<Rightarrow> \<not> module_available env g \<or> order_by \<notin> set (fts_columns g))"

text \<open>
  \<^verbatim>\<open>DISTINCT\<close> on rows in the order of \<^verbatim>\<open>rank\<close> keeps the first of equal titles
  (\<open>remdups\<close> alone keeps the last).
\<close>

definition distinct_first :: "string list \<Rightarrow> string list" where
  "distinct_first ts = rev (remdups (rev ts))"

text \<open>
  The titles that the loop over \<^verbatim>\<open>rows.Next()\<close> collects, or \<open>None\<close> when \<^verbatim>\<open>db.Query\<close>
  returned an error. The expression is a bound parameter: the engine reads it when the
  first row is asked for, and an expression it refuses makes \<^verbatim>\<open>rows.Next()\<close> return false
  at once. The source does not read \<^verbatim>\<open>rows.Err()\<close>, so it has no rows and no error then.
\<close>

definition query_fts :: "env \<Rightarrow> string \<Rightarrow> string \<Rightarrow> int \<Rightarrow> world \<Rightarrow> string list option" where
  "query_fts env order_by expr lim s =
     (case fts_table s of
        None \<Rightarrow> None
      | Some g \<Rightarrow>
          if prepare_fails env order_by s then None
          else (case fts_match env g (articles s) expr of
                  None \<Rightarrow> Some []
                | Some ts \<Rightarrow> Some (take (nat lim) (distinct_first ts))))"

text \<open>
  SQLite reads the operands of \<^verbatim>\<open>LIKE\<close> character by character
  (\<^verbatim>\<open>sqlite3Utf8Read\<close>): a byte below \<^verbatim>\<open>0xC0\<close> is a character by itself; a byte from
  \<^verbatim>\<open>0xC0\<close> on gives its low bits (\<^verbatim>\<open>sqlite3Utf8Trans1\<close>) and takes six bits of every
  continuation byte that follows, in 32 bits; a value below \<^verbatim>\<open>0x80\<close>, a surrogate,
  \<^verbatim>\<open>0xFFFE\<close> and \<^verbatim>\<open>0xFFFF\<close> are read as \<^verbatim>\<open>0xFFFD\<close>.
\<close>

definition utf8_lead :: "nat \<Rightarrow> nat" where
  "utf8_lead b =
     (if b < 224 then b mod 32 else if b < 240 then b mod 16 else if b < 248 then b mod 8
      else if b < 252 then b mod 4 else if b < 254 then b mod 2 else 0)"

definition utf8_fix :: "nat \<Rightarrow> nat" where
  "utf8_fix c =
     (if c < 128 \<or> (55296 \<le> c \<and> c < 57344) \<or> c = 65534 \<or> c = 65535 then 65533 else c)"

text \<open>\<open>pending\<close> is the value of the character whose continuation bytes are being read.\<close>

fun utf8_read :: "nat option \<Rightarrow> string \<Rightarrow> nat list" where
  "utf8_read None [] = []"
| "utf8_read (Some c) [] = [utf8_fix c]"
| "utf8_read None (b # bs) =
     (if byte b < 192 then byte b # utf8_read None bs
      else utf8_read (Some (utf8_lead (byte b))) bs)"
| "utf8_read (Some c) (b # bs) =
     (if cont b then utf8_read (Some ((c * 64 + byte b mod 64) mod 4294967296)) bs
      else if byte b < 192 then utf8_fix c # byte b # utf8_read None bs
      else utf8_fix c # utf8_read (Some (utf8_lead (byte b))) bs)"

definition utf8_chars :: "string \<Rightarrow> nat list" where
  "utf8_chars s = utf8_read None s"

text \<open>\<^verbatim>\<open>sqlite3Tolower\<close> on a character below \<^verbatim>\<open>0x80\<close>.\<close>

definition sqlite3Tolower :: "nat \<Rightarrow> nat" where
  "sqlite3Tolower c = (if 65 \<le> c \<and> c \<le> 90 then c + 32 else c)"

text \<open>
  \<^verbatim>\<open>LIKE\<close> without \<^verbatim>\<open>ESCAPE\<close> (\<^verbatim>\<open>patternCompare\<close>): \<^verbatim>\<open>%\<close> (37) stands for any sequence of
  characters, \<^verbatim>\<open>_\<close> (95) for one character, any other character for itself, the letters
  of ASCII without regard to case. Both operands end at their first zero byte.
\<close>

fun like :: "nat list \<Rightarrow> nat list \<Rightarrow> bool" where
  "like [] t = (t = [])"
| "like (p # ps) [] = (p = 37 \<and> like ps [])"
| "like (p # ps) (c # cs) =
     (if p = 37 then like ps (c # cs) \<or> like (p # ps) cs
      else if p = 95 then like ps cs
      else (p = c \<or> (p < 128 \<and> c < 128 \<and> sqlite3Tolower p = sqlite3Tolower c)) \<and> like ps cs)"

definition c_string :: "string \<Rightarrow> string" where
  "c_string s = takeWhile (\<lambda>c. c \<noteq> CHR 0x00) s"

definition sql_like :: "string \<Rightarrow> string \<Rightarrow> bool" where
  "sql_like pattern t = like (utf8_chars (c_string pattern)) (utf8_chars (c_string t))"

text \<open>
  \<^verbatim>\<open>SELECT DISTINCT title FROM articles WHERE title LIKE ? ORDER BY title LIMIT ?\<close>.
  The column has the binary collation: titles are ordered bytewise. \<open>None\<close> is an error
  of \<^verbatim>\<open>db.Query\<close>. A pattern of more than 50000 bytes
  (\<^verbatim>\<open>SQLITE_MAX_LIKE_PATTERN_LENGTH\<close>) is refused when the first row is compared, which
  ends the loop over \<^verbatim>\<open>rows.Next()\<close> without a row.
\<close>

definition max_like_pattern :: nat where
  "max_like_pattern = 50000"

definition query_like :: "env \<Rightarrow> string \<Rightarrow> int \<Rightarrow> world \<Rightarrow> string list option" where
  "query_like env pattern lim s =
     (if fault env SearchFailed then None
      else if max_like_pattern < length pattern then Some []
      else Some (take (nat lim)
                  (sort (remdups (map Title (filter (\<lambda>r. sql_like pattern (Title r))
                     (articles s)))))))"

text \<open>The second half of \<open>SearchTitles\<close>: the query with \<^verbatim>\<open>LIKE\<close>.\<close>

definition search_like :: "env \<Rightarrow> string \<Rightarrow> int \<Rightarrow> world \<Rightarrow> failure + string list" where
  "search_like env query lim s =
     (case query_like env (''%'' @ query @ ''%'') lim s of
        None \<Rightarrow> Inl SearchFailed
      | Some titles \<Rightarrow> Inr titles)"

text \<open>
  \<open>SearchTitles\<close>. \<open>rows\<close> is \<open>None\<close> for Go's \<^verbatim>\<open>nil\<close>: no full-text query was made, or
  \<^verbatim>\<open>db.Query\<close> returned an error.
\<close>

definition SearchTitles :: "env \<Rightarrow> string \<Rightarrow> int \<Rightarrow> world \<Rightarrow> (failure + string list) \<times> world" where
  "SearchTitles env query limit s =
     (case Open env s of
        (Some e, s1) \<Rightarrow> (Inl e, s1)
      | (None, s1) \<Rightarrow>
          (let lim = (if limit \<le> 0 then 20 else limit);
               (rows, s2) =
                 (if ftsVersion s1 = ''fts5'' \<or> ftsVersion s1 = ''fts4''
                  then
                    (case query_fts env ''rank'' (fts_query_of query) lim s1 of
                       None \<Rightarrow> (None, (say LogFTSQueryFailed s1)\<lparr>ftsVersion := ''none''\<rparr>)
                     | Some titles \<Rightarrow> (Some titles, s1))
                  else (None, s1))
           in case (if ftsVersion s2 = ''none'' then None else rows) of
                None \<Rightarrow> (search_like env query lim s2, s2)
              | Some titles \<Rightarrow> (Inr titles, s2)))"


text \<open>
  Builds of SQLite without full-text modules, and with generation 4 only; the latter's
  engine finds the titles that begin with the expression (its trailing \<^verbatim>\<open>*\<close> removed)
  and ranks them in the order of the table.
\<close>

definition sqlite_plain :: env where
  "sqlite_plain = sqlite_full\<lparr>fts5_module := False, fts4_module := False\<rparr>"

definition sqlite_fts4 :: env where
  "sqlite_fts4 = sqlite_full\<lparr>fts5_module := False,
     fts_match := (\<lambda>g rows expr.
        Some (map Title (filter (\<lambda>r. HasPrefix (Title r) (butlast expr)) rows)))\<rparr>"

text \<open>
  A build with both modules. Its engine refuses an expression that begins with \<^verbatim>\<open>*\<close>,
  where the star has no term to follow, and answers any other like the one above.
\<close>

definition sqlite_fts5 :: env where
  "sqlite_fts5 = sqlite_full\<lparr>
     fts_match := (\<lambda>g rows expr.
        if HasPrefix expr ''*'' then None
        else Some (map Title (filter (\<lambda>r. HasPrefix (Title r) (butlast expr)) rows)))\<rparr>"

definition anarchy_rows :: "Article list" where
  "anarchy_rows =
     [\<lparr>ID = 12, Title = ''Anarchy'', Namespace = 0, Content = ''a'', Redirect = []\<rparr>,
      \<lparr>ID = 14, Title = ''Anarchism'', Namespace = 0, Content = ''b'', Redirect = []\<rparr>]"

text \<open>The databases these builds create, holding the two rows.\<close>

definition plain_store :: world where
  "plain_store = (snd (Open sqlite_plain empty_store))\<lparr>articles := anarchy_rows\<rparr>"

definition fts4_store :: world where
  "fts4_store = (snd (Open sqlite_fts4 empty_store))\<lparr>articles := anarchy_rows\<rparr>"

text \<open>The database of the build with generation 5, holding two rows.\<close>

definition mash_rows :: "Article list" where
  "mash_rows =
     [\<lparr>ID = 12, Title = ''Anarchism'', Namespace = 0, Content = ''a'', Redirect = []\<rparr>,
      \<lparr>ID = 20, Title = ''M*A*S*H'', Namespace = 0, Content = ''b'', Redirect = []\<rparr>]"

definition fts5_store :: world where
  "fts5_store = (snd (Open sqlite_fts5 empty_store))\<lparr>articles := mash_rows\<rparr>"

text \<open>What a lookup by title compares: the exact title, then the folded one.\<close>

definition title_matches :: "env \<Rightarrow> string \<Rightarrow> Article \<Rightarrow> bool" where
  "title_matches env title r \<longleftrightarrow>
     Title r = title
     \<or> sql_lower (Title r) = sql_lower (title_case env (strings_ToLower env title))"

text \<open>A database that holds the redirect and the article, opened.\<close>

definition lookup_store :: world where
  "lookup_store = (snd (Open sqlite_full empty_store))\<lparr>
     articles := [article_of anarchism_page, article_of accessible_page]\<rparr>"

text \<open>The schema of the database: what \<open>createTables\<close> and the capability probe write.\<close>

definition schema :: "world \<Rightarrow> string list \<times> (string \<times> fts_gen) list \<times> fts_gen option" where
  "schema s = (objects s, triggers s, fts_table s)"

section \<open>Properties of Open\<close>

lemma Open_success_initialized:
  "Open env s = (None, s') \<Longrightarrow> initialized s'"
  by (auto simp: Open_def split: if_splits prod.splits option.splits)

lemma Open_initialized: "initialized s \<Longrightarrow> Open env s = (None, s)"
  by (simp add: Open_def)

lemma Open_sqlite_full_empty:
  "fst (Open sqlite_full empty_store) = None"
  by (simp add: Open_def createTables_def setup_fts_def sqlite_full_def empty_store_def create_object_def
      select_fts_sql_def probe_fts_def exec_create_fts_def module_available_def
      trigger_names_def create_trigger_def say_def Let_def)

lemma same_rows_refl: "same_rows s s"
  by (simp add: same_rows_def)

lemma same_rows_trans: "same_rows s s' \<Longrightarrow> same_rows s' s'' \<Longrightarrow> same_rows s s''"
  by (simp add: same_rows_def)

lemma same_rows_say: "same_rows s (say e s)"
  by (simp add: same_rows_def say_def)

lemma same_rows_create_object: "same_rows s (create_object n s)"
  by (simp add: same_rows_def create_object_def)

lemma same_rows_create_trigger: "same_rows s (create_trigger g n s)"
  by (simp add: same_rows_def create_trigger_def)

lemma same_rows_create_indexes: "same_rows s (snd (create_indexes env ns s))"
proof (induction ns arbitrary: s)
  case Nil
  show ?case by (simp add: same_rows_refl)
next
  case (Cons n ns)
  show ?case
    using Cons.IH [of "create_object n s"] same_rows_create_object [of s n]
    by (auto simp: same_rows_refl intro: same_rows_trans)
qed

lemma same_rows_create_triggers: "same_rows s (create_triggers env g ns s)"
proof (induction ns arbitrary: s)
  case Nil
  show ?case by (simp add: same_rows_refl)
next
  case (Cons n ns)
  show ?case
    using Cons.IH [of "create_trigger g n s"] Cons.IH [of "say (LogTriggerWarning g n) s"]
      same_rows_create_trigger [of s g n] same_rows_say [of s "LogTriggerWarning g n"]
    by (auto intro: same_rows_trans)
qed

lemma same_rows_exec_create_fts: "exec_create_fts env g s = Some s' \<Longrightarrow> same_rows s s'"
  by (auto simp: exec_create_fts_def same_rows_def split: if_splits)

lemma same_rows_probe_fts: "same_rows s (snd (probe_fts env s))"
  unfolding probe_fts_def Let_def
  by (auto split: option.splits
      intro: same_rows_trans [OF same_rows_say] same_rows_trans [OF same_rows_exec_create_fts]
        same_rows_trans [OF _ same_rows_create_triggers] same_rows_say
      dest!: same_rows_exec_create_fts)

lemma same_rows_detect_fts: "same_rows s (snd (detect_fts env sql s))"
  by (simp add: detect_fts_def Let_def same_rows_say)


lemma same_rows_setup_fts: "same_rows s (setup_fts env s)"
proof -
  obtain v s3 where c: "(case select_fts_sql env s of
               None \<Rightarrow> probe_fts env s
             | Some existingSQL \<Rightarrow>
                 if existingSQL \<noteq> [] then detect_fts env existingSQL s else probe_fts env s) = (v, s3)"
    by (cases "(case select_fts_sql env s of
               None \<Rightarrow> probe_fts env s
             | Some existingSQL \<Rightarrow>
                 if existingSQL \<noteq> [] then detect_fts env existingSQL s else probe_fts env s)")
  have "same_rows s s3"
  proof (cases "select_fts_sql env s")
    case None
    with c have "s3 = snd (probe_fts env s)" by simp
    then show ?thesis using same_rows_probe_fts by simp
  next
    case (Some sql)
    show ?thesis
    proof (cases "sql = []")
      case True
      with c Some have "s3 = snd (probe_fts env s)" by simp
      then show ?thesis using same_rows_probe_fts by simp
    next
      case False
      with c Some have "s3 = snd (detect_fts env sql s)" by simp
      then show ?thesis using same_rows_detect_fts by simp
    qed
  qed
  then show ?thesis
    by (simp add: setup_fts_def c same_rows_def say_def)
qed

lemma same_rows_createTables: "same_rows s (snd (createTables env s))"
proof -
  let ?ix = "create_indexes env
     [''idx_articles_title'', ''idx_articles_namespace'', ''idx_articles_redirect'']
     (create_object ''articles'' s)"
  obtain r s2 where ix: "?ix = (r, s2)" by (cases ?ix)
  from ix have s2: "s2 = snd ?ix" by simp
  have a: "same_rows s s2"
    unfolding s2 by (rule same_rows_trans [OF same_rows_create_object same_rows_create_indexes])
  have b: "same_rows s (setup_fts env s2)"
    using a same_rows_setup_fts by (blast intro: same_rows_trans)
  have c: "same_rows s (create_object ''index_entries'' (setup_fts env s2))"
    using b same_rows_create_object by (blast intro: same_rows_trans)
  have d: "same_rows s (create_object ''idx_index_entries_seek''
                          (create_object ''index_entries'' (setup_fts env s2)))"
    using c same_rows_create_object by (blast intro: same_rows_trans)
  show ?thesis
    unfolding createTables_def ix
    using a b c d by (cases r) (simp_all add: same_rows_refl)
qed

lemma create_indexes_fst:
  "fst (create_indexes env ns s) =
     (case find (\<lambda>n. fault env (FailedToCreateIndex n)) ns of
        None \<Rightarrow> None | Some n \<Rightarrow> Some (FailedToCreateIndex n))"
  by (induction ns arbitrary: s) auto

lemma createTables_fst:
  "fst (createTables env s) =
     (if fault env FailedToCreateArticlesTable then Some FailedToCreateArticlesTable
      else case find (\<lambda>n. fault env (FailedToCreateIndex n))
                  [''idx_articles_title'', ''idx_articles_namespace'', ''idx_articles_redirect''] of
             Some n \<Rightarrow> Some (FailedToCreateIndex n)
           | None \<Rightarrow>
               if fault env FailedToCreateIndexEntriesTable then Some FailedToCreateIndexEntriesTable
               else if fault env FailedToCreateIndexEntriesIndex
               then Some FailedToCreateIndexEntriesIndex
               else None)"
proof -
  let ?ix = "create_indexes env
     [''idx_articles_title'', ''idx_articles_namespace'', ''idx_articles_redirect'']
     (create_object ''articles'' s)"
  obtain r s2 where ix: "?ix = (r, s2)" by (cases ?ix)
  have r: "r = (case find (\<lambda>n. fault env (FailedToCreateIndex n))
                  [''idx_articles_title'', ''idx_articles_namespace'', ''idx_articles_redirect''] of
        None \<Rightarrow> None | Some n \<Rightarrow> Some (FailedToCreateIndex n))"
    using create_indexes_fst [of env _ "create_object ''articles'' s"] ix
    by (metis fst_conv)
  show ?thesis
    unfolding createTables_def ix
    by (cases r) (use r in \<open>auto simp del: find.simps split: option.splits\<close>)
qed

lemma Open_fst_eq:
  "fst (Open env s) =
     (if initialized s then None
      else if fault env FailedToOpenDatabase then Some FailedToOpenDatabase
      else if fault env FailedToSetWALMode then Some FailedToSetWALMode
      else if fault env FailedToSetCacheSize then Some FailedToSetCacheSize
      else case fst (createTables env (s\<lparr>db_open := True\<rparr>)) of
             Some e \<Rightarrow> Some (FailedToCreateTables e)
           | None \<Rightarrow> None)"
  by (simp add: Open_def split: prod.splits option.splits)

lemma Open_fst:
  "\<not> initialized s \<Longrightarrow> \<not> initialized s' \<Longrightarrow> fst (Open env s) = fst (Open env s')"
  by (simp only: Open_fst_eq createTables_fst if_False)

lemma Open_snd_cases:
  "snd (Open env s) = s \<or> snd (Open env s) = s\<lparr>db_open := False\<rparr>
   \<or> snd (Open env s) = s\<lparr>db_open := True\<rparr>
   \<or> snd (Open env s) = snd (createTables env (s\<lparr>db_open := True\<rparr>))
   \<or> snd (Open env s) = (snd (createTables env (s\<lparr>db_open := True\<rparr>)))\<lparr>initialized := True\<rparr>"
  by (simp add: Open_def split: prod.splits option.splits)

lemma Open_rows:
  "articles (snd (Open env s)) = articles s \<and> index_entries (snd (Open env s)) = index_entries s"
  using same_rows_createTables [of "s\<lparr>db_open := True\<rparr>" env] Open_snd_cases [of env s]
  by (auto simp: same_rows_def)

lemma Open_failure_uninitialized:
  assumes "Open env s = (Some e, s')"
  shows "\<not> initialized s \<and> \<not> initialized s'"
proof -
  from assms have n: "\<not> initialized s" by (auto simp: Open_def)
  have c: "initialized (snd (createTables env (s\<lparr>db_open := True\<rparr>))) = initialized s"
    using same_rows_createTables [of "s\<lparr>db_open := True\<rparr>" env] by (simp add: same_rows_def)
  from assms n c have "\<not> initialized s'"
    by (auto simp: Open_def split: if_splits prod.splits option.splits)
  with n show ?thesis by simp
qed

lemma Open_no_fault: "\<forall>f. \<not> fault env f \<Longrightarrow> fst (Open env s) = None"
  by (simp add: Open_fst_eq createTables_fst)

section \<open>Properties of the index loader\<close>

lemma apply_inserts_append:
  "apply_inserts rows (xs @ ys) = apply_inserts (apply_inserts rows xs) ys"
  by (induction xs arbitrary: rows) auto

lemma eff_nil: "eff [] [] s = s"
  by (simp add: eff_def)

lemma eff_eff: "eff evs2 tx2 (eff evs1 tx1 s) = eff (evs1 @ evs2) (tx1 @ tx2) s"
  by (simp add: eff_def apply_inserts_append)

lemma say_eff: "say e s = eff [e] [] s"
  by (simp add: say_def eff_def)

lemma commit_index_eff: "commit_index tx s = eff [] tx s"
  by (simp add: commit_index_def eff_def)

lemma final_commit_index_shape:
  "\<exists>e evs txc. \<forall>s. final_commit_index env i tx s = (e, eff evs txc s)"
proof (cases "fault env FailedToCommitFinalTransaction")
  case True
  then have "\<forall>s. final_commit_index env i tx s = (Some FailedToCommitFinalTransaction, eff [] [] s)"
    by (simp add: final_commit_index_def eff_nil)
  then show ?thesis by blast
next
  case False
  then have "\<forall>s. final_commit_index env i tx s = (None, eff [LogDoneLoadingIndex i] tx s)"
    by (simp add: final_commit_index_def say_eff commit_index_eff eff_eff)
  then show ?thesis by blast
qed

lemma index_step_shape:
  "(\<exists>e evs txc. \<forall>s. index_step env limit raw i tx s = Done (e, eff evs txc s))
   \<or> (\<exists>i' tx' evs txc. \<forall>s. index_step env limit raw i tx s = Next i' tx' (eff evs txc s))"
proof -
  obtain e0 evs0 txc0 where f0: "\<And>s. final_commit_index env (Suc i) [] s = (e0, eff evs0 txc0 s)"
    using final_commit_index_shape by metis
  show ?thesis
  proof (cases "maxTokenSize \<le> length raw")
    case True
    then have "\<forall>s. index_step env limit raw i tx s = Done (Some (ScannerError ErrTooLong), eff [] [] s)"
      by (simp add: index_step_def eff_nil)
    then show ?thesis by blast
  next
    case short: False
    show ?thesis
    proof (cases "parse_line (dropCR raw)")
      case None
      with short have "\<forall>s. index_step env limit raw i tx s = Next i tx (eff [] [] s)"
        by (simp add: index_step_def eff_nil)
      then show ?thesis by blast
    next
      case (Some p)
      obtain seek aid where p: "p = (seek, aid)" by (cases p)
      obtain e1 evs1 txc1 where f1:
        "\<And>s. final_commit_index env (Suc i) (tx @ [(seek, aid)]) s = (e1, eff evs1 txc1 s)"
        using final_commit_index_shape by metis
      let ?c = "eff [LogProcessedIndexEntries (Suc i)] (tx @ [(seek, aid)])"
      have c: "\<And>s. say (LogProcessedIndexEntries (Suc i)) (commit_index (tx @ [(seek, aid)]) s) = ?c s"
        by (simp add: say_eff commit_index_eff eff_eff)
      consider
          (a) "fault env (FailedToInsertIndexEntry seek aid)"
        | (b) "\<not> fault env (FailedToInsertIndexEntry seek aid)" "Suc i mod batchSize_index = 0"
              "fault env FailedToCommitTransaction"
        | (c) "\<not> fault env (FailedToInsertIndexEntry seek aid)" "Suc i mod batchSize_index = 0"
              "\<not> fault env FailedToCommitTransaction" "fault env FailedToBeginTransaction"
        | (d) "\<not> fault env (FailedToInsertIndexEntry seek aid)" "Suc i mod batchSize_index = 0"
              "\<not> fault env FailedToCommitTransaction" "\<not> fault env FailedToBeginTransaction"
              "fault env FailedToPrepareStatement"
        | (e) "\<not> fault env (FailedToInsertIndexEntry seek aid)" "Suc i mod batchSize_index = 0"
              "\<not> fault env FailedToCommitTransaction" "\<not> fault env FailedToBeginTransaction"
              "\<not> fault env FailedToPrepareStatement" "0 < limit \<and> limit \<le> int (Suc i)"
        | (f) "\<not> fault env (FailedToInsertIndexEntry seek aid)" "Suc i mod batchSize_index = 0"
              "\<not> fault env FailedToCommitTransaction" "\<not> fault env FailedToBeginTransaction"
              "\<not> fault env FailedToPrepareStatement" "\<not> (0 < limit \<and> limit \<le> int (Suc i))"
        | (g) "\<not> fault env (FailedToInsertIndexEntry seek aid)" "Suc i mod batchSize_index \<noteq> 0"
              "0 < limit \<and> limit \<le> int (Suc i)"
        | (h) "\<not> fault env (FailedToInsertIndexEntry seek aid)" "Suc i mod batchSize_index \<noteq> 0"
              "\<not> (0 < limit \<and> limit \<le> int (Suc i))"
        by blast
      then show ?thesis
      proof cases
        case a
        with short Some p
        have "\<forall>s. index_step env limit raw i tx s = Next i tx (eff [LogErrorInsertingIndexEntry] [] s)"
          by (simp add: index_step_def say_eff)
        then show ?thesis by blast
      next
        case b
        with short Some p
        have "\<forall>s. index_step env limit raw i tx s = Done (Some FailedToCommitTransaction, eff [] [] s)"
          by (simp add: index_step_def eff_nil)
        then show ?thesis by blast
      next
        case c
        with short Some p
        have "\<forall>s. index_step env limit raw i tx s = Done (Some FailedToBeginTransaction, ?c s)"
          by (simp add: index_step_def Let_def say_eff commit_index_eff eff_eff)
        then show ?thesis by blast
      next
        case d
        with short Some p
        have "\<forall>s. index_step env limit raw i tx s = Done (Some FailedToPrepareStatement, ?c s)"
          by (simp add: index_step_def Let_def say_eff commit_index_eff eff_eff)
        then show ?thesis by blast
      next
        case e
        with short Some p
        have "\<forall>s. index_step env limit raw i tx s
                = Done (e0, eff ([LogProcessedIndexEntries (Suc i)] @ evs0) ((tx @ [(seek, aid)]) @ txc0) s)"
          by (simp add: index_step_def Let_def say_eff commit_index_eff eff_eff f0)
        then show ?thesis by blast
      next
        case f
        with short Some p
        have "\<forall>s. index_step env limit raw i tx s = Next (Suc i) [] (?c s)"
          by (simp add: index_step_def Let_def say_eff commit_index_eff eff_eff)
        then show ?thesis by blast
      next
        case g
        with short Some p
        have "\<forall>s. index_step env limit raw i tx s = Done (e1, eff evs1 txc1 s)"
          by (simp add: index_step_def f1)
        then show ?thesis by blast
      next
        case h
        with short Some p
        have "\<forall>s. index_step env limit raw i tx s = Next (Suc i) (tx @ [(seek, aid)]) (eff [] [] s)"
          by (simp add: index_step_def eff_nil)
        then show ?thesis by blast
      qed
    qed
  qed
qed

lemma index_loop_shape:
  "\<exists>e evs txc. \<forall>s. index_loop env limit ls i tx s = (e, eff evs txc s)"
proof (induction ls arbitrary: i tx)
  case Nil
  obtain e evs txc where f: "\<And>s. final_commit_index env i tx s = (e, eff evs txc s)"
    using final_commit_index_shape by metis
  show ?case
  proof (cases "fault env (ScannerError ReadFailed)")
    case True
    then have "\<forall>s. index_loop env limit [] i tx s = (Some (ScannerError ReadFailed), eff [] [] s)"
      by (simp add: eff_nil)
    then show ?thesis by blast
  next
    case False
    then have "\<forall>s. index_loop env limit [] i tx s = (e, eff evs txc s)"
      by (simp add: f)
    then show ?thesis by blast
  qed
next
  case (Cons raw rest)
  from index_step_shape [of env limit raw i tx] show ?case
  proof
    assume "\<exists>e evs txc. \<forall>s. index_step env limit raw i tx s = Done (e, eff evs txc s)"
    then obtain e evs txc where "\<forall>s. index_step env limit raw i tx s = Done (e, eff evs txc s)"
      by blast
    then have "\<forall>s. index_loop env limit (raw # rest) i tx s = (e, eff evs txc s)"
      by simp
    then show ?thesis by blast
  next
    assume "\<exists>i' tx' evs txc. \<forall>s. index_step env limit raw i tx s = Next i' tx' (eff evs txc s)"
    then obtain i' tx' evs txc
      where st: "\<forall>s. index_step env limit raw i tx s = Next i' tx' (eff evs txc s)"
      by blast
    from Cons.IH [of i' tx'] obtain e evs2 txc2
      where r: "\<forall>s. index_loop env limit rest i' tx' s = (e, eff evs2 txc2 s)"
      by blast
    from st r have "\<forall>s. index_loop env limit (raw # rest) i tx s = (e, eff (evs @ evs2) (txc @ txc2) s)"
      by (simp add: eff_eff)
    then show ?thesis by blast
  qed
qed

lemma insert_or_ignore_mem: "e \<in> set rows \<Longrightarrow> insert_or_ignore e rows = rows"
  by (simp add: insert_or_ignore_def)

lemma set_apply_inserts: "set (apply_inserts rows es) = set rows \<union> set es"
  by (induction es arbitrary: rows) (auto simp: insert_or_ignore_def)

lemma apply_inserts_present: "set es \<subseteq> set rows \<Longrightarrow> apply_inserts rows es = rows"
  by (induction es arbitrary: rows) (auto simp: insert_or_ignore_def)

lemma apply_inserts_twice: "apply_inserts (apply_inserts rows es) es = apply_inserts rows es"
  by (simp add: apply_inserts_present set_apply_inserts)

lemma distinct_apply_inserts: "distinct rows \<Longrightarrow> distinct (apply_inserts rows es)"
  by (induction es arbitrary: rows) (auto simp: insert_or_ignore_def)

lemma index_loop_rerun:
  assumes "index_entries s2 = index_entries (snd (index_loop env limit ls i tx s))"
  shows "index_entries (snd (index_loop env limit ls i tx s2)) = index_entries s2"
proof -
  obtain e evs txc where r: "\<And>s. index_loop env limit ls i tx s = (e, eff evs txc s)"
    using index_loop_shape by metis
  show ?thesis using assms by (simp add: r eff_def apply_inserts_twice)
qed

lemma index_loop_distinct:
  "distinct (index_entries s) \<Longrightarrow> distinct (index_entries (snd (index_loop env limit ls i tx s)))"
proof -
  obtain e evs txc where r: "\<And>s. index_loop env limit ls i tx s = (e, eff evs txc s)"
    using index_loop_shape by metis
  show "distinct (index_entries s) \<Longrightarrow> ?thesis" by (simp add: r eff_def distinct_apply_inserts)
qed

lemma eff_fields:
  "initialized (eff evs txc s) = initialized s"
  "articles (eff evs txc s) = articles s"
  "index_entries (eff evs txc s) = apply_inserts (index_entries s) txc"
  "logged (eff evs txc s) = logged s @ evs"
  "ftsVersion (eff evs txc s) = ftsVersion s"
  by (simp_all add: eff_def)

lemma LoadIndex_via_Open:
  "LoadIndex env limit ls s =
     (case Open env s of (Some e, s1) \<Rightarrow> (Some e, s1) | (None, s1) \<Rightarrow> LoadIndex env limit ls s1)"
  by (auto simp: LoadIndex_def Open_initialized dest: Open_success_initialized
      split: prod.splits option.splits)

lemma LoadIndex_shape:
  "\<exists>e evs txc. \<forall>s. initialized s \<longrightarrow> LoadIndex env limit ls s = (e, eff evs txc s)"
proof -
  obtain e evs txc where r: "\<And>s. index_loop env limit ls 0 [] s = (e, eff evs txc s)"
    using index_loop_shape by metis
  consider (a) "fault env FailedToOpenIndexFile"
    | (b) "\<not> fault env FailedToOpenIndexFile" "fault env FailedToCreateBzip2Reader"
    | (c) "\<not> fault env FailedToOpenIndexFile" "\<not> fault env FailedToCreateBzip2Reader"
          "fault env FailedToBeginTransaction"
    | (d) "\<not> fault env FailedToOpenIndexFile" "\<not> fault env FailedToCreateBzip2Reader"
          "\<not> fault env FailedToBeginTransaction" "fault env FailedToPrepareStatement"
    | (e) "\<not> fault env FailedToOpenIndexFile" "\<not> fault env FailedToCreateBzip2Reader"
          "\<not> fault env FailedToBeginTransaction" "\<not> fault env FailedToPrepareStatement"
    by blast
  then show ?thesis
  proof cases
    case a
    then have "\<forall>s. initialized s \<longrightarrow> LoadIndex env limit ls s = (Some FailedToOpenIndexFile, eff [] [] s)"
      by (simp add: LoadIndex_def Open_initialized eff_nil)
    then show ?thesis by blast
  next
    case b
    then have "\<forall>s. initialized s \<longrightarrow> LoadIndex env limit ls s = (Some FailedToCreateBzip2Reader, eff [] [] s)"
      by (simp add: LoadIndex_def Open_initialized eff_nil)
    then show ?thesis by blast
  next
    case c
    then have "\<forall>s. initialized s \<longrightarrow> LoadIndex env limit ls s
        = (Some FailedToBeginTransaction, eff [LogReadingIndex] [] s)"
      by (simp add: LoadIndex_def Open_initialized say_eff)
    then show ?thesis by blast
  next
    case d
    then have "\<forall>s. initialized s \<longrightarrow> LoadIndex env limit ls s
        = (Some FailedToPrepareStatement, eff [LogReadingIndex] [] s)"
      by (simp add: LoadIndex_def Open_initialized say_eff)
    then show ?thesis by blast
  next
    case e
    then have "\<forall>s. initialized s \<longrightarrow> LoadIndex env limit ls s
        = (e, eff ([LogReadingIndex] @ evs) ([] @ txc) s)"
      by (simp add: LoadIndex_def Open_initialized say_eff r eff_eff)
    then show ?thesis by blast
  qed
qed

lemma LoadIndex_rerun:
  assumes s': "s' = snd (LoadIndex env limit ls s)"
  shows "index_entries (snd (LoadIndex env limit ls s')) = index_entries s'"
    and "index_entries (snd (LoadIndex env limit ls (NewWiki s'))) = index_entries s'"
proof -
  obtain e evs txc
    where sh: "\<And>t. initialized t \<Longrightarrow> LoadIndex env limit ls t = (e, eff evs txc t)"
    using LoadIndex_shape by metis
  obtain r s1 where o: "Open env s = (r, s1)" by (cases "Open env s")
  have nw: "\<not> initialized (NewWiki s')" "index_entries (NewWiki s') = index_entries s'"
    by (simp_all add: NewWiki_def)
  obtain r2 s2 where o2: "Open env (NewWiki s') = (r2, s2)" by (cases "Open env (NewWiki s')")
  have s2: "index_entries s2 = index_entries s'"
    using Open_rows [of env "NewWiki s'"] o2 nw by simp
  show "index_entries (snd (LoadIndex env limit ls s')) = index_entries s'"
  proof (cases r)
    case (Some err)
    with o have u: "\<not> initialized s" "\<not> initialized s1"
      using Open_failure_uninitialized by blast+
    from Some o s' have eq: "s' = s1"
      by (simp add: LoadIndex_via_Open [of env limit ls s])
    from Open_fst [OF u, of env] o Some have "fst (Open env s1) = Some err" by simp
    then obtain err' s3 where "Open env s1 = (Some err', s3)"
      by (cases "Open env s1") auto
    then show ?thesis
      using Open_rows [of env s1] eq by (simp add: LoadIndex_via_Open [of env limit ls s1])
  next
    case None
    with o have i1: "initialized s1" using Open_success_initialized by blast
    from None o s' have eq: "s' = eff evs txc s1"
      by (simp add: LoadIndex_via_Open [of env limit ls s] sh [OF i1])
    then have "initialized s'" using i1 by (simp add: eff_fields)
    then show ?thesis
      by (simp add: sh eq eff_fields apply_inserts_twice)
  qed
  show "index_entries (snd (LoadIndex env limit ls (NewWiki s'))) = index_entries s'"
  proof (cases r2)
    case (Some err)
    with o2 s2 show ?thesis
      by (simp add: LoadIndex_via_Open [of env limit ls "NewWiki s'"])
  next
    case None
    with o2 have i2: "initialized s2" using Open_success_initialized by blast
    have "r = None"
    proof (cases "initialized s")
      case True
      with o show ?thesis by (simp add: Open_initialized)
    next
      case False
      from Open_fst [OF False nw(1), of env] o o2 None show ?thesis by simp
    qed
    with o have i1: "initialized s1" using Open_success_initialized by blast
    from \<open>r = None\<close> o s' have eq: "s' = eff evs txc s1"
      by (simp add: LoadIndex_via_Open [of env limit ls s] sh [OF i1])
    from None o2 have "LoadIndex env limit ls (NewWiki s') = (e, eff evs txc s2)"
      by (simp add: LoadIndex_via_Open [of env limit ls "NewWiki s'"] sh [OF i2])
    then show ?thesis
      using s2 eq by (simp add: eff_fields apply_inserts_twice)
  qed
qed

lemma LoadIndex_distinct:
  "distinct (index_entries s) \<Longrightarrow> distinct (index_entries (snd (LoadIndex env limit ls s)))"
proof -
  assume d: "distinct (index_entries s)"
  obtain e evs txc
    where sh: "\<And>t. initialized t \<Longrightarrow> LoadIndex env limit ls t = (e, eff evs txc t)"
    using LoadIndex_shape by metis
  obtain r s1 where o: "Open env s = (r, s1)" by (cases "Open env s")
  have s1: "index_entries s1 = index_entries s" using Open_rows [of env s] o by simp
  show ?thesis
  proof (cases r)
    case (Some err)
    with o s1 d show ?thesis by (simp add: LoadIndex_via_Open [of env limit ls s])
  next
    case None
    with o have "initialized s1" using Open_success_initialized by blast
    with None o s1 d show ?thesis
      by (simp add: LoadIndex_via_Open [of env limit ls s] sh eff_fields distinct_apply_inserts)
  qed
qed

lemma index_loop_skip:
  assumes "length raw < maxTokenSize" "parse_line (dropCR raw) = None"
  shows "index_loop env limit (pre @ raw # rest) i tx s = index_loop env limit (pre @ rest) i tx s"
proof (induction pre arbitrary: i tx s)
  case Nil
  from assms show ?case by (simp add: index_step_def)
next
  case (Cons r pre)
  show ?case by (simp add: Cons.IH split: step.splits)
qed

lemma index_loop_cut:
  assumes "maxTokenSize \<le> length raw"
  shows "index_loop env limit (pre @ raw # rest) i tx s = index_loop env limit (pre @ [raw]) i tx s"
proof (induction pre arbitrary: i tx s)
  case Nil
  from assms show ?case by (simp add: index_step_def)
next
  case (Cons r pre)
  show ?case by (simp add: Cons.IH split: step.splits)
qed

lemma index_pairs_Cons:
  "index_pairs (r # rs) =
     (case parse_line (dropCR r) of None \<Rightarrow> index_pairs rs | Some p \<Rightarrow> p # index_pairs rs)"
  by (simp add: index_pairs_def List.map_filter_simps split: option.splits)

lemma index_pairs_Nil: "index_pairs [] = []"
  by (simp add: index_pairs_def List.map_filter_simps)

lemma index_loop_short:
  assumes nf: "\<forall>f. \<not> fault env f" and lim: "limit \<le> 0"
  shows "\<forall>r \<in> set ls. length r < maxTokenSize \<Longrightarrow>
     fst (index_loop env limit ls i tx s) = None
     \<and> index_entries (snd (index_loop env limit ls i tx s))
         = apply_inserts (index_entries s) (tx @ index_pairs ls)"
proof (induction ls arbitrary: i tx s)
  case Nil
  from nf show ?case
    by (simp add: final_commit_index_def say_eff commit_index_eff eff_eff eff_fields index_pairs_Nil)
next
  case (Cons r rest)
  then have short: "length r < maxTokenSize" and rest: "\<forall>r \<in> set rest. length r < maxTokenSize"
    by simp_all
  show ?case
  proof (cases "parse_line (dropCR r)")
    case None
    with short have "index_step env limit r i tx s = Next i tx s"
      by (simp add: index_step_def)
    with Cons.IH [OF rest, of i tx s] None show ?thesis
      by (simp add: index_pairs_Cons)
  next
    case (Some p)
    obtain seek aid where p: "p = (seek, aid)" by (cases p)
    show ?thesis
    proof (cases "Suc i mod batchSize_index = 0")
      case True
      with short Some p nf lim
      have "index_step env limit r i tx s
              = Next (Suc i) [] (eff [LogProcessedIndexEntries (Suc i)] (tx @ [p]) s)"
        by (simp add: index_step_def Let_def say_eff commit_index_eff eff_eff)
      with Cons.IH [OF rest, of "Suc i" "[]" "eff [LogProcessedIndexEntries (Suc i)] (tx @ [p]) s"]
        Some
      show ?thesis
        by (simp add: index_pairs_Cons eff_fields apply_inserts_append)
    next
      case False
      with short Some p nf lim
      have "index_step env limit r i tx s = Next (Suc i) (tx @ [p]) s"
        by (simp add: index_step_def)
      with Cons.IH [OF rest, of "Suc i" "tx @ [p]" s] Some
      show ?thesis
        by (simp add: index_pairs_Cons)
    qed
  qed
qed

lemma index_loop_long:
  assumes lim: "limit \<le> 0" and long: "maxTokenSize \<le> length raw"
  shows "\<forall>r \<in> set pre. length r < maxTokenSize \<Longrightarrow>
     i + length (index_pairs pre) < batchSize_index \<Longrightarrow>
     fst (index_loop env limit (pre @ raw # rest) i tx s) = Some (ScannerError ErrTooLong)
     \<and> index_entries (snd (index_loop env limit (pre @ raw # rest) i tx s)) = index_entries s"
proof (induction pre arbitrary: i tx s)
  case Nil
  from long show ?case by (simp add: index_step_def)
next
  case (Cons r pre)
  then have short: "length r < maxTokenSize" and rest: "\<forall>r \<in> set pre. length r < maxTokenSize"
    by simp_all
  show ?case
  proof (cases "parse_line (dropCR r)")
    case None
    with short have st: "index_step env limit r i tx s = Next i tx s"
      by (simp add: index_step_def)
    from Cons.prems(2) None have "i + length (index_pairs pre) < batchSize_index"
      by (simp add: index_pairs_Cons)
    from Cons.IH [OF rest this, of tx s] st show ?thesis by simp
  next
    case (Some p)
    obtain seek aid where p: "p = (seek, aid)" by (cases p)
    from Cons.prems(2) Some have few: "Suc i + length (index_pairs pre) < batchSize_index"
      by (simp add: index_pairs_Cons)
    then have nb: "Suc i mod batchSize_index \<noteq> 0" by simp
    have few': "i + length (index_pairs pre) < batchSize_index" using few by simp
    show ?thesis
    proof (cases "fault env (FailedToInsertIndexEntry seek aid)")
      case True
      with short Some p have st: "index_step env limit r i tx s
          = Next i tx (say LogErrorInsertingIndexEntry s)"
        by (simp add: index_step_def)
      from Cons.IH [OF rest few', of tx "say LogErrorInsertingIndexEntry s"] st show ?thesis
        by (simp add: say_def)
    next
      case False
      with short Some p nb lim have st: "index_step env limit r i tx s = Next (Suc i) (tx @ [p]) s"
        by (simp add: index_step_def)
      from Cons.IH [OF rest few, of "tx @ [p]" s] st show ?thesis by simp
    qed
  qed
qed

lemma LoadIndex_no_fault:
  assumes "\<forall>f. \<not> fault env f"
  shows "LoadIndex env limit ls s = index_loop env limit ls 0 [] (say LogReadingIndex (snd (Open env s)))"
  using assms Open_no_fault [OF assms, of s]
  by (auto simp: LoadIndex_def split: prod.splits)

lemma LoadIndex_cong_loop:
  assumes "\<And>i tx t. index_loop env limit ls i tx t = index_loop env limit ls' i tx t"
  shows "LoadIndex env limit ls s = LoadIndex env limit ls' s"
  by (simp add: LoadIndex_def assms split: prod.splits option.splits)

lemma index_loop_long_batches:
  assumes nf: "\<forall>f. \<not> fault env f" and lim: "limit \<le> 0" and long: "maxTokenSize \<le> length raw"
  shows "\<forall>r \<in> set pre. length r < maxTokenSize \<Longrightarrow> length tx = i mod batchSize_index \<Longrightarrow>
     fst (index_loop env limit (pre @ raw # rest) i tx s) = Some (ScannerError ErrTooLong)
     \<and> index_entries (snd (index_loop env limit (pre @ raw # rest) i tx s))
         = apply_inserts (index_entries s)
             (take (length tx + length (index_pairs pre)
                     - (i + length (index_pairs pre)) mod batchSize_index)
                (tx @ index_pairs pre))"
proof (induction pre arbitrary: i tx s)
  case Nil
  from long Nil.prems(2) show ?case by (simp add: index_step_def index_pairs_Nil)
next
  case (Cons r pre)
  then have short: "length r < maxTokenSize" and rest: "\<forall>r \<in> set pre. length r < maxTokenSize"
    by simp_all
  let ?n = "length (index_pairs pre)"
  show ?case
  proof (cases "parse_line (dropCR r)")
    case None
    with short have st: "index_step env limit r i tx s = Next i tx s"
      by (simp add: index_step_def)
    from Cons.IH [OF rest Cons.prems(2), of s] st None show ?thesis
      by (simp add: index_pairs_Cons)
  next
    case (Some p)
    obtain seek aid where p: "p = (seek, aid)" by (cases p)
    have ip: "index_pairs (r # pre) = p # index_pairs pre"
      using Some by (simp add: index_pairs_Cons)
    show ?thesis
    proof (cases "Suc i mod batchSize_index = 0")
      case True
      let ?s1 = "eff [LogProcessedIndexEntries (Suc i)] (tx @ [p]) s"
      from True short Some p nf lim
      have st: "index_step env limit r i tx s = Next (Suc i) [] ?s1"
        by (simp add: index_step_def Let_def say_eff commit_index_eff eff_eff)
      have m: "(Suc i + ?n) mod batchSize_index = ?n mod batchSize_index"
        using True by (metis add.commute mod_add_right_eq add_0_right)
      then have le: "(Suc i + ?n) mod batchSize_index \<le> ?n" by simp
      have "take (length tx + Suc ?n - (i + Suc ?n) mod batchSize_index) (tx @ p # index_pairs pre)
          = (tx @ [p]) @ take (?n - (Suc i + ?n) mod batchSize_index) (index_pairs pre)"
        using le by (simp add: Suc_diff_le)
      with Cons.IH [OF rest, of "[]" "Suc i" ?s1] True st show ?thesis
        by (simp add: ip eff_fields apply_inserts_append del: append_assoc)
    next
      case False
      with short Some p nf lim
      have st: "index_step env limit r i tx s = Next (Suc i) (tx @ [p]) s"
        by (simp add: index_step_def)
      have l: "length (tx @ [p]) = Suc i mod batchSize_index"
        using False Cons.prems(2) by (simp add: mod_Suc split: if_splits)
      from Cons.IH [OF rest l, of s] st show ?thesis
        by (simp add: ip)
    qed
  qed
qed

section \<open>Properties of the article loader\<close>

lemma apply_upserts_append:
  "apply_upserts rows (xs @ ys) = apply_upserts (apply_upserts rows xs) ys"
  by (induction xs arbitrary: rows) auto

lemma set_upsert: "set (upsert a rows) \<subseteq> insert a (set rows)"
  by (auto simp: upsert_def)

lemma set_apply_upserts: "set (apply_upserts rows tx) \<subseteq> set rows \<union> set tx"
proof (induction tx arbitrary: rows)
  case Nil
  show ?case by simp
next
  case (Cons a tx)
  from Cons.IH [of "upsert a rows"] set_upsert [of a rows] show ?case by auto
qed

lemma effA_nil: "effA [] [] s = s"
  by (simp add: effA_def)

lemma effA_effA: "effA evs2 tx2 (effA evs1 tx1 s) = effA (evs1 @ evs2) (tx1 @ tx2) s"
  by (simp add: effA_def apply_upserts_append)

lemma say_effA: "say e s = effA [e] [] s"
  by (simp add: say_def effA_def)

lemma commit_articles_effA: "commit_articles tx s = effA [] tx s"
  by (simp add: commit_articles_def effA_def)

lemma effA_fields:
  "initialized (effA evs txc s) = initialized s"
  "articles (effA evs txc s) = apply_upserts (articles s) txc"
  "index_entries (effA evs txc s) = index_entries s"
  "logged (effA evs txc s) = logged s @ evs"
  "ftsVersion (effA evs txc s) = ftsVersion s"
  "fts_table (effA evs txc s) = fts_table s"
  by (simp_all add: effA_def)

lemma origin_mono_tx: "set tx \<subseteq> origin S dump tx"
  by (auto simp: origin_def)

lemma origin_Cons: "origin S rest tx \<subseteq> origin S (d # rest) tx"
  by (auto simp: origin_def)

lemma origin_step: "kept S p \<Longrightarrow> origin S rest (tx @ [article_of p]) \<subseteq> origin S (Decoded p # rest) tx"
  by (auto simp: origin_def)

lemma origin_nil_tx: "origin S rest [] \<subseteq> origin S (d # rest) tx"
  by (auto simp: origin_def)

lemma final_commit_articles_shape:
  "\<exists>e evs txc. (\<forall>s. final_commit_articles env n tx s = (e, effA evs txc s)) \<and> set txc \<subseteq> set tx"
proof (cases "fault env FailedToCommitFinalTransaction")
  case True
  then have "(\<forall>s. final_commit_articles env n tx s = (Returns (Some FailedToCommitFinalTransaction), effA [] [] s))
      \<and> set ([]::Article list) \<subseteq> set tx"
    by (simp add: final_commit_articles_def effA_nil)
  then show ?thesis by blast
next
  case False
  then have "(\<forall>s. final_commit_articles env n tx s = (Returns None, effA [LogDoneProcessingArticles n] tx s))
      \<and> set tx \<subseteq> set tx"
    by (simp add: final_commit_articles_def say_effA commit_articles_effA effA_effA)
  then show ?thesis by blast
qed

lemma article_step_shape:
  "(\<exists>e evs txc. (\<forall>s. article_step env limit S d n ctx s = Stop (e, effA evs txc s))
        \<and> set txc \<subseteq> origin S [d] (snd ctx))
   \<or> (\<exists>n' ctx' evs txc. (\<forall>s. article_step env limit S d n ctx s = Again n' ctx' (effA evs txc s))
        \<and> set txc \<subseteq> origin S [d] (snd ctx) \<and> set (snd ctx') \<subseteq> origin S [d] (snd ctx))"
proof (cases d)
  case DecodeError
  then have "(\<forall>s. article_step env limit S d n ctx s = Again n ctx (effA [LogXMLDecodeError] [] s))
     \<and> set ([]::Article list) \<subseteq> origin S [d] (snd ctx) \<and> set (snd ctx) \<subseteq> origin S [d] (snd ctx)"
    by (simp add: article_step_def say_effA origin_mono_tx)
  then show ?thesis by blast
next
  case SyntaxError
  then have "(\<forall>s. article_step env limit S d n ctx s = Stop (Hangs, effA [LogXMLDecodeError] [] s))
     \<and> set ([]::Article list) \<subseteq> origin S [d] (snd ctx)"
    by (simp add: article_step_def say_effA)
  then show ?thesis by blast
next
  case (Decoded p)
  let ?tx' = "snd ctx @ [article_of p]"
  show ?thesis
  proof (cases "kept S p")
    case False
    with Decoded
    have "(\<forall>s. article_step env limit S d n ctx s = Again n ctx (effA [] [] s))
     \<and> set ([]::Article list) \<subseteq> origin S [d] (snd ctx) \<and> set (snd ctx) \<subseteq> origin S [d] (snd ctx)"
      by (auto simp: article_step_def kept_def effA_nil origin_def)
    then show ?thesis by blast
  next
    case True
    then have k: "NS p = 0" "page_ID p \<in> S" by (simp_all add: kept_def)
    have o: "set ?tx' \<subseteq> origin S [d] (snd ctx)"
      using True Decoded by (auto simp: origin_def)
    have o0: "set (snd ctx) \<subseteq> origin S [d] (snd ctx)"
      by (rule origin_mono_tx)
    obtain e0 evs0 txc0 where f0:
      "\<And>s. final_commit_articles env (Suc n) [] s = (e0, effA evs0 txc0 s)" "set txc0 \<subseteq> set []"
      using final_commit_articles_shape by metis
    obtain e1 evs1 txc1 where f1:
      "\<And>s. final_commit_articles env (Suc n) ?tx' s = (e1, effA evs1 txc1 s)" "set txc1 \<subseteq> set ?tx'"
      using final_commit_articles_shape by metis
    let ?c = "effA [LogProcessedArticles (Suc n)] ?tx'"
    consider
        (a) "fault env (FailedToInsertArticle (page_ID p))"
      | (b) "\<not> fault env (FailedToInsertArticle (page_ID p))" "batchSize_articles \<le> Suc (fst ctx)"
            "fault env FailedToCommitTransaction"
      | (c) "\<not> fault env (FailedToInsertArticle (page_ID p))" "batchSize_articles \<le> Suc (fst ctx)"
            "\<not> fault env FailedToCommitTransaction" "fault env FailedToBeginTransaction"
      | (d) "\<not> fault env (FailedToInsertArticle (page_ID p))" "batchSize_articles \<le> Suc (fst ctx)"
            "\<not> fault env FailedToCommitTransaction" "\<not> fault env FailedToBeginTransaction"
            "fault env FailedToPrepareStatement"
      | (e) "\<not> fault env (FailedToInsertArticle (page_ID p))" "batchSize_articles \<le> Suc (fst ctx)"
            "\<not> fault env FailedToCommitTransaction" "\<not> fault env FailedToBeginTransaction"
            "\<not> fault env FailedToPrepareStatement" "0 < limit \<and> limit \<le> int (Suc n)"
      | (f) "\<not> fault env (FailedToInsertArticle (page_ID p))" "batchSize_articles \<le> Suc (fst ctx)"
            "\<not> fault env FailedToCommitTransaction" "\<not> fault env FailedToBeginTransaction"
            "\<not> fault env FailedToPrepareStatement" "\<not> (0 < limit \<and> limit \<le> int (Suc n))"
      | (g) "\<not> fault env (FailedToInsertArticle (page_ID p))" "\<not> batchSize_articles \<le> Suc (fst ctx)"
            "0 < limit \<and> limit \<le> int (Suc n)"
      | (h) "\<not> fault env (FailedToInsertArticle (page_ID p))" "\<not> batchSize_articles \<le> Suc (fst ctx)"
            "\<not> (0 < limit \<and> limit \<le> int (Suc n))"
      by blast
    then show ?thesis
    proof cases
      case a
      with Decoded k
      have "\<forall>s. article_step env limit S d n ctx s
              = Again n ctx (effA [LogErrorInsertingArticle (page_ID p)] [] s)"
        by (simp add: article_step_def say_effA)
      with o0 have "(\<forall>s. article_step env limit S d n ctx s
              = Again n ctx (effA [LogErrorInsertingArticle (page_ID p)] [] s))
          \<and> set ([]::Article list) \<subseteq> origin S [d] (snd ctx) \<and> set (snd ctx) \<subseteq> origin S [d] (snd ctx)"
        by simp
      then show ?thesis by blast
    next
      case b
      with Decoded k
      have "(\<forall>s. article_step env limit S d n ctx s = Stop (Returns (Some FailedToCommitTransaction), effA [] [] s))
          \<and> set ([]::Article list) \<subseteq> origin S [d] (snd ctx)"
        by (simp add: article_step_def effA_nil)
      then show ?thesis by blast
    next
      case c
      with Decoded k
      have "\<forall>s. article_step env limit S d n ctx s = Stop (Returns (Some FailedToBeginTransaction), ?c s)"
        by (simp add: article_step_def Let_def say_effA commit_articles_effA effA_effA)
      with o have "(\<forall>s. article_step env limit S d n ctx s = Stop (Returns (Some FailedToBeginTransaction), ?c s))
          \<and> set ?tx' \<subseteq> origin S [d] (snd ctx)"
        by simp
      then show ?thesis by blast
    next
      case d
      with Decoded k
      have "\<forall>s. article_step env limit S d n ctx s = Stop (Returns (Some FailedToPrepareStatement), ?c s)"
        by (simp add: article_step_def Let_def say_effA commit_articles_effA effA_effA)
      with o have "(\<forall>s. article_step env limit S d n ctx s = Stop (Returns (Some FailedToPrepareStatement), ?c s))
          \<and> set ?tx' \<subseteq> origin S [d] (snd ctx)"
        by simp
      then show ?thesis by blast
    next
      case e
      with Decoded k
      have "\<forall>s. article_step env limit S d n ctx s
              = Stop (e0, effA ([LogProcessedArticles (Suc n)] @ evs0) (?tx' @ txc0) s)"
        by (simp add: article_step_def Let_def say_effA commit_articles_effA effA_effA f0)
      moreover have "set (?tx' @ txc0) \<subseteq> origin S [d] (snd ctx)"
        using o f0(2) by auto
      ultimately have "(\<forall>s. article_step env limit S d n ctx s
              = Stop (e0, effA ([LogProcessedArticles (Suc n)] @ evs0) (?tx' @ txc0) s))
          \<and> set (?tx' @ txc0) \<subseteq> origin S [d] (snd ctx)"
        by simp
      then show ?thesis by blast
    next
      case f
      with Decoded k
      have "\<forall>s. article_step env limit S d n ctx s = Again (Suc n) (0, []) (?c s)"
        by (simp add: article_step_def Let_def say_effA commit_articles_effA effA_effA)
      with o have "(\<forall>s. article_step env limit S d n ctx s = Again (Suc n) (0, []) (?c s))
          \<and> set ?tx' \<subseteq> origin S [d] (snd ctx)
          \<and> set (snd (0::nat, []::Article list)) \<subseteq> origin S [d] (snd ctx)"
        by simp
      then show ?thesis by blast
    next
      case g
      with Decoded k
      have "\<forall>s. article_step env limit S d n ctx s = Stop (e1, effA evs1 txc1 s)"
        by (simp add: article_step_def f1)
      moreover have "set txc1 \<subseteq> origin S [d] (snd ctx)"
        using o f1(2) by blast
      ultimately have "(\<forall>s. article_step env limit S d n ctx s = Stop (e1, effA evs1 txc1 s))
          \<and> set txc1 \<subseteq> origin S [d] (snd ctx)"
        by simp
      then show ?thesis by blast
    next
      case h
      with Decoded k
      have "\<forall>s. article_step env limit S d n ctx s
              = Again (Suc n) (Suc (fst ctx), ?tx') (effA [] [] s)"
        by (simp add: article_step_def effA_nil)
      with o have "(\<forall>s. article_step env limit S d n ctx s
              = Again (Suc n) (Suc (fst ctx), ?tx') (effA [] [] s))
          \<and> set ([]::Article list) \<subseteq> origin S [d] (snd ctx)
          \<and> set (snd (Suc (fst ctx), ?tx')) \<subseteq> origin S [d] (snd ctx)"
        by simp
      then show ?thesis by blast
    qed
  qed
qed

lemma origin_Cons_step:
  assumes "set tx' \<subseteq> origin S [d] tx"
  shows "origin S rest tx' \<subseteq> origin S (d # rest) tx"
  using assms by (auto simp: origin_def)

lemma origin_head: "origin S [d] tx \<subseteq> origin S (d # rest) tx"
  by (auto simp: origin_def)

lemma articles_loop_shape:
  "\<exists>e evs txc. (\<forall>s. articles_loop env limit S dump n ctx s = (e, effA evs txc s))
      \<and> set txc \<subseteq> origin S dump (snd ctx)"
proof (induction dump arbitrary: n ctx)
  case Nil
  obtain e evs txc where f: "\<And>s. final_commit_articles env n (snd ctx) s = (e, effA evs txc s)"
    "set txc \<subseteq> set (snd ctx)"
    using final_commit_articles_shape by metis
  then have "(\<forall>s. articles_loop env limit S [] n ctx s = (e, effA evs txc s))
      \<and> set txc \<subseteq> origin S [] (snd ctx)"
    using origin_mono_tx [of "snd ctx" S "[]"] by auto
  then show ?case by blast
next
  case (Cons d rest)
  from article_step_shape [of env limit S d n ctx] show ?case
  proof
    assume "\<exists>e evs txc. (\<forall>s. article_step env limit S d n ctx s = Stop (e, effA evs txc s))
        \<and> set txc \<subseteq> origin S [d] (snd ctx)"
    then obtain e evs txc where st: "\<forall>s. article_step env limit S d n ctx s = Stop (e, effA evs txc s)"
      and o: "set txc \<subseteq> origin S [d] (snd ctx)" by blast
    from st have "\<forall>s. articles_loop env limit S (d # rest) n ctx s = (e, effA evs txc s)"
      by simp
    moreover from o origin_head have "set txc \<subseteq> origin S (d # rest) (snd ctx)" by blast
    ultimately show ?thesis by blast
  next
    assume "\<exists>n' ctx' evs txc. (\<forall>s. article_step env limit S d n ctx s = Again n' ctx' (effA evs txc s))
        \<and> set txc \<subseteq> origin S [d] (snd ctx) \<and> set (snd ctx') \<subseteq> origin S [d] (snd ctx)"
    then obtain n' ctx' evs txc
      where st: "\<forall>s. article_step env limit S d n ctx s = Again n' ctx' (effA evs txc s)"
        and o: "set txc \<subseteq> origin S [d] (snd ctx)"
        and o': "set (snd ctx') \<subseteq> origin S [d] (snd ctx)" by blast
    from Cons.IH [of n' ctx'] obtain e evs2 txc2
      where r: "\<forall>s. articles_loop env limit S rest n' ctx' s = (e, effA evs2 txc2 s)"
        and o2: "set txc2 \<subseteq> origin S rest (snd ctx')" by blast
    from st r have "\<forall>s. articles_loop env limit S (d # rest) n ctx s
        = (e, effA (evs @ evs2) (txc @ txc2) s)"
      by (simp add: effA_effA)
    moreover have "set (txc @ txc2) \<subseteq> origin S (d # rest) (snd ctx)"
      using o o2 origin_Cons_step [OF o'] origin_head [of S d "snd ctx" rest] by auto
    ultimately show ?thesis by blast
  qed
qed

lemma pages_Cons:
  "pages (d # rest) =
     (case d of Decoded p \<Rightarrow> p # pages rest | DecodeError \<Rightarrow> pages rest | SyntaxError \<Rightarrow> pages rest)"
  by (simp add: pages_def List.map_filter_simps split: decoded.splits)

lemma kept_rows_Nil: "kept_rows S [] = []"
  by (simp add: kept_rows_def pages_def List.map_filter_simps)

lemma kept_rows_Cons:
  "kept_rows S (d # rest) =
     (case d of
        Decoded p \<Rightarrow> if kept S p then article_of p # kept_rows S rest else kept_rows S rest
      | DecodeError \<Rightarrow> kept_rows S rest
      | SyntaxError \<Rightarrow> kept_rows S rest)"
  by (simp add: kept_rows_def pages_Cons split: decoded.splits)

lemma articles_loop_all:
  assumes nf: "\<forall>f. \<not> fault env f" and lim: "limit \<le> 0"
  shows "SyntaxError \<notin> set dump \<Longrightarrow>
     fst (articles_loop env limit S dump n ctx s) = Returns None
     \<and> articles (snd (articles_loop env limit S dump n ctx s))
         = apply_upserts (articles s) (snd ctx @ kept_rows S dump)
     \<and> initialized (snd (articles_loop env limit S dump n ctx s)) = initialized s"
proof (induction dump arbitrary: n ctx s)
  case Nil
  from nf show ?case
    by (simp add: final_commit_articles_def say_effA commit_articles_effA effA_effA effA_fields
        kept_rows_Nil)
next
  case (Cons d rest)
  then have ns: "SyntaxError \<notin> set rest" and nd: "d \<noteq> SyntaxError" by auto
  note IH = Cons.IH [OF ns]
  show ?case
  proof (cases d)
    case DecodeError
    then have "article_step env limit S d n ctx s = Again n ctx (effA [LogXMLDecodeError] [] s)"
      by (simp add: article_step_def say_effA)
    with IH [of n ctx "effA [LogXMLDecodeError] [] s"] DecodeError show ?thesis
      by (simp add: kept_rows_Cons effA_fields)
  next
    case SyntaxError
    with nd show ?thesis by simp
  next
    case (Decoded p)
    show ?thesis
    proof (cases "kept S p")
      case False
      with Decoded have "article_step env limit S d n ctx s = Again n ctx s"
        by (auto simp: article_step_def kept_def)
      with IH [of n ctx s] Decoded False show ?thesis
        by (simp add: kept_rows_Cons)
    next
      case True
      then have k: "NS p = 0" "page_ID p \<in> S" by (simp_all add: kept_def)
      let ?tx' = "snd ctx @ [article_of p]"
      show ?thesis
      proof (cases "batchSize_articles \<le> Suc (fst ctx)")
        case full: True
        with Decoded k nf lim
        have "article_step env limit S d n ctx s
                = Again (Suc n) (0, []) (effA [LogProcessedArticles (Suc n)] ?tx' s)"
          by (simp add: article_step_def Let_def say_effA commit_articles_effA effA_effA)
        with IH [of "Suc n" "(0, [])" "effA [LogProcessedArticles (Suc n)] ?tx' s"] Decoded True
        show ?thesis
          by (simp add: kept_rows_Cons effA_fields apply_upserts_append)
      next
        case False
        with Decoded k nf lim
        have "article_step env limit S d n ctx s = Again (Suc n) (Suc (fst ctx), ?tx') s"
          by (simp add: article_step_def)
        with IH [of "Suc n" "(Suc (fst ctx), ?tx')" s] Decoded True
        show ?thesis
          by (simp add: kept_rows_Cons)
      qed
    qed
  qed
qed

lemma Open_index_set: "index_set (snd (Open env s)) = index_set s"
  using Open_rows [of env s] by (simp add: index_set_def)

lemma ProcessArticles_no_fault:
  assumes "\<forall>f. \<not> fault env f"
  shows "ProcessArticles env limit dump s =
     articles_loop env limit (index_set s) dump 0 (0, [])
       (say LogProcessingArticles (say (LogFoundArticles (card (index_set s))) (snd (Open env s))))"
  using assms Open_no_fault [OF assms, of s] Open_index_set [of env s]
  by (auto simp: ProcessArticles_def Let_def split: prod.splits)

lemma ProcessArticles_all:
  assumes nf: "\<forall>f. \<not> fault env f" and lim: "limit \<le> 0" and eof: "SyntaxError \<notin> set dump"
  shows "fst (ProcessArticles env limit dump s) = Returns None"
    and "articles (snd (ProcessArticles env limit dump s))
           = apply_upserts (articles s) (kept_rows (index_set s) dump)"
    and "initialized (snd (ProcessArticles env limit dump s))"
proof -
  let ?s2 = "say LogProcessingArticles (say (LogFoundArticles (card (index_set s))) (snd (Open env s)))"
  have a: "articles ?s2 = articles s" using Open_rows [of env s] by (simp add: say_def)
  have "fst (Open env s) = None" by (rule Open_no_fault [OF nf])
  then have "Open env s = (None, snd (Open env s))" by (simp add: prod_eq_iff)
  then have "initialized (snd (Open env s))" by (rule Open_success_initialized)
  then have i: "initialized ?s2" by (simp add: say_def)
  from articles_loop_all [OF nf lim eof, of "index_set s" 0 "(0, [])" ?s2] a i
  show "fst (ProcessArticles env limit dump s) = Returns None"
    and "articles (snd (ProcessArticles env limit dump s))
           = apply_upserts (articles s) (kept_rows (index_set s) dump)"
    and "initialized (snd (ProcessArticles env limit dump s))"
    by (simp_all add: ProcessArticles_no_fault [OF nf])
qed

lemma ProcessArticles_shape:
  "\<exists>e evs txc. (\<forall>s. initialized s \<longrightarrow> index_set s = S \<longrightarrow>
        ProcessArticles env limit dump s = (e, effA evs txc s))
      \<and> set txc \<subseteq> origin S dump []"
proof -
  obtain e evs txc
    where r: "\<And>s. articles_loop env limit S dump 0 (0, []) s = (e, effA evs txc s)"
      and o: "set txc \<subseteq> origin S dump (snd (0::nat, []::Article list))"
    using articles_loop_shape [of env limit S dump 0 "(0, [])"] by metis
  let ?found = "LogFoundArticles (card S)"
  consider (a) "fault env FailedToQueryIndexEntries"
    | (b) "\<not> fault env FailedToQueryIndexEntries" "fault env FailedToOpenArticlesFile"
    | (c) "\<not> fault env FailedToQueryIndexEntries" "\<not> fault env FailedToOpenArticlesFile"
          "fault env FailedToBeginTransaction"
    | (d) "\<not> fault env FailedToQueryIndexEntries" "\<not> fault env FailedToOpenArticlesFile"
          "\<not> fault env FailedToBeginTransaction" "fault env FailedToPrepareStatement"
    | (e) "\<not> fault env FailedToQueryIndexEntries" "\<not> fault env FailedToOpenArticlesFile"
          "\<not> fault env FailedToBeginTransaction" "\<not> fault env FailedToPrepareStatement"
          "fault env FailedToCreateBzip2Reader"
    | (f) "\<not> fault env FailedToQueryIndexEntries" "\<not> fault env FailedToOpenArticlesFile"
          "\<not> fault env FailedToBeginTransaction" "\<not> fault env FailedToPrepareStatement"
          "\<not> fault env FailedToCreateBzip2Reader"
    by blast
  then show ?thesis
  proof cases
    case a
    then have "(\<forall>s. initialized s \<longrightarrow> index_set s = S \<longrightarrow>
        ProcessArticles env limit dump s = (Returns (Some FailedToQueryIndexEntries), effA [] [] s))
      \<and> set ([]::Article list) \<subseteq> origin S dump []"
      by (simp add: ProcessArticles_def Open_initialized effA_nil)
    then show ?thesis by blast
  next
    case b
    then have "(\<forall>s. initialized s \<longrightarrow> index_set s = S \<longrightarrow>
        ProcessArticles env limit dump s = (Returns (Some FailedToOpenArticlesFile), effA [?found] [] s))
      \<and> set ([]::Article list) \<subseteq> origin S dump []"
      by (simp add: ProcessArticles_def Open_initialized say_effA)
    then show ?thesis by blast
  next
    case c
    then have "(\<forall>s. initialized s \<longrightarrow> index_set s = S \<longrightarrow>
        ProcessArticles env limit dump s = (Returns (Some FailedToBeginTransaction), effA [?found] [] s))
      \<and> set ([]::Article list) \<subseteq> origin S dump []"
      by (simp add: ProcessArticles_def Open_initialized say_effA)
    then show ?thesis by blast
  next
    case d
    then have "(\<forall>s. initialized s \<longrightarrow> index_set s = S \<longrightarrow>
        ProcessArticles env limit dump s = (Returns (Some FailedToPrepareStatement), effA [?found] [] s))
      \<and> set ([]::Article list) \<subseteq> origin S dump []"
      by (simp add: ProcessArticles_def Open_initialized say_effA)
    then show ?thesis by blast
  next
    case e
    then have "(\<forall>s. initialized s \<longrightarrow> index_set s = S \<longrightarrow>
        ProcessArticles env limit dump s = (Returns (Some FailedToCreateBzip2Reader), effA [?found] [] s))
      \<and> set ([]::Article list) \<subseteq> origin S dump []"
      by (simp add: ProcessArticles_def Open_initialized say_effA)
    then show ?thesis by blast
  next
    case f
    then have "\<forall>s. initialized s \<longrightarrow> index_set s = S \<longrightarrow>
        ProcessArticles env limit dump s
          = (e, effA (([?found] @ [LogProcessingArticles]) @ evs) (([] @ []) @ txc) s)"
      by (simp add: ProcessArticles_def Open_initialized say_effA r effA_effA)
    with o show ?thesis by auto
  qed
qed

lemma ProcessArticles_via_Open:
  "ProcessArticles env limit dump s =
     (case Open env s of (Some e, s1) \<Rightarrow> (Returns (Some e), s1)
      | (None, s1) \<Rightarrow> ProcessArticles env limit dump s1)"
  by (auto simp: ProcessArticles_def Open_initialized dest: Open_success_initialized
      split: prod.splits option.splits)

lemma ProcessArticles_origin:
  assumes "r \<in> set (articles (snd (ProcessArticles env limit dump s)))"
  shows "r \<in> set (articles s)
     \<or> (\<exists>p. Decoded p \<in> set dump \<and> kept (index_set s) p \<and> r = article_of p)"
proof -
  obtain e evs txc
    where sh: "\<And>t. initialized t \<Longrightarrow> index_set t = index_set s \<Longrightarrow>
        ProcessArticles env limit dump t = (e, effA evs txc t)"
      and o: "set txc \<subseteq> origin (index_set s) dump []"
    using ProcessArticles_shape [of "index_set s" env limit dump] by metis
  obtain res s1 where op: "Open env s = (res, s1)" by (cases "Open env s")
  have s1: "articles s1 = articles s" "index_set s1 = index_set s"
    using Open_rows [of env s] Open_index_set [of env s] op by simp_all
  show ?thesis
  proof (cases res)
    case (Some err)
    with op s1 assms show ?thesis
      by (simp add: ProcessArticles_via_Open [of env limit dump s])
  next
    case None
    with op have "initialized s1" using Open_success_initialized by blast
    with None op s1 assms have "r \<in> set (apply_upserts (articles s) txc)"
      by (simp add: ProcessArticles_via_Open [of env limit dump s] sh effA_fields)
    with set_apply_upserts [of "articles s" txc] o have "r \<in> set (articles s) \<or> r \<in> origin (index_set s) dump []"
      by blast
    then show ?thesis by (auto simp: origin_def)
  qed
qed

lemma ProcessArticles_success_initialized:
  assumes "fst (ProcessArticles env limit dump s) = Returns None"
  shows "initialized (snd (ProcessArticles env limit dump s))"
proof -
  obtain e evs txc
    where sh: "\<And>t. initialized t \<Longrightarrow> index_set t = index_set s \<Longrightarrow>
        ProcessArticles env limit dump t = (e, effA evs txc t)"
    using ProcessArticles_shape [of "index_set s" env limit dump] by metis
  obtain res s1 where op: "Open env s = (res, s1)" by (cases "Open env s")
  have s1: "index_set s1 = index_set s"
    using Open_index_set [of env s] op by simp
  show ?thesis
  proof (cases res)
    case (Some err)
    with op assms show ?thesis
      by (simp add: ProcessArticles_via_Open [of env limit dump s])
  next
    case None
    with op have "initialized s1" using Open_success_initialized by blast
    with None op s1 show ?thesis
      by (simp add: ProcessArticles_via_Open [of env limit dump s] sh effA_fields)
  qed
qed

section \<open>Properties of the queries\<close>

lemmas like_eval = sql_like_def c_string_def utf8_chars_def byte_def sqlite3Tolower_def
  max_like_pattern_def

lemma like_percent: "like [37] t"
  by (induction t) simp_all

lemma sql_like_all: "sql_like ''%%'' t"
proof -
  have "like [37, 37] cs" for cs
    by (induction cs) (simp_all add: like_percent)
  then show ?thesis
    by (simp add: sql_like_def c_string_def utf8_chars_def byte_def)
qed

lemma Open_sqlite_plain_empty:
  "Open sqlite_plain empty_store =
     (None, \<lparr>initialized = True, ftsVersion = ''none'', db_open = True,
        objects = [''articles'', ''idx_articles_title'', ''idx_articles_namespace'',
          ''idx_articles_redirect'', ''index_entries'', ''idx_index_entries_seek''],
        triggers = [], fts_table = None, articles = [], index_entries = [],
        logged = [LogFTS5NotAvailable, LogFTS4NotAvailable, LogFTSNotAvailable]\<rparr>)"
  by (simp add: Open_def createTables_def setup_fts_def sqlite_plain_def sqlite_full_def
      empty_store_def create_object_def select_fts_sql_def probe_fts_def exec_create_fts_def
      module_available_def say_def Let_def)

lemma Open_sqlite_fts4_empty:
  "Open sqlite_fts4 empty_store =
     (None, \<lparr>initialized = True, ftsVersion = ''fts4'', db_open = True,
        objects = [''articles'', ''idx_articles_title'', ''idx_articles_namespace'',
          ''idx_articles_redirect'', ''index_entries'', ''idx_index_entries_seek''],
        triggers = [(''articles_ai'', FTS4), (''articles_ad'', FTS4), (''articles_au'', FTS4)],
        fts_table = Some FTS4, articles = [], index_entries = [],
        logged = [LogFTS5NotAvailable, LogUsing ''fts4'']\<rparr>)"
  by (simp add: Open_def createTables_def setup_fts_def sqlite_fts4_def sqlite_full_def
      empty_store_def create_object_def select_fts_sql_def probe_fts_def exec_create_fts_def
      module_available_def trigger_names_def create_trigger_def say_def Let_def)

lemma Open_sqlite_fts5_empty:
  "Open sqlite_fts5 empty_store =
     (None, \<lparr>initialized = True, ftsVersion = ''fts5'', db_open = True,
        objects = [''articles'', ''idx_articles_title'', ''idx_articles_namespace'',
          ''idx_articles_redirect'', ''index_entries'', ''idx_index_entries_seek''],
        triggers = [(''articles_ai'', FTS5), (''articles_ad'', FTS5), (''articles_au'', FTS5)],
        fts_table = Some FTS5, articles = [], index_entries = [],
        logged = [LogUsing ''fts5'']\<rparr>)"
  by (simp add: Open_def createTables_def setup_fts_def sqlite_fts5_def sqlite_full_def
      empty_store_def create_object_def select_fts_sql_def probe_fts_def exec_create_fts_def
      module_available_def trigger_names_def create_trigger_def say_def Let_def)

lemma plain_store_fields:
  "initialized plain_store" "ftsVersion plain_store = ''none''" "articles plain_store = anarchy_rows"
  by (simp_all add: plain_store_def Open_sqlite_plain_empty)

lemma fts4_store_fields:
  "initialized fts4_store" "ftsVersion fts4_store = ''fts4''" "articles fts4_store = anarchy_rows"
  "fts_table fts4_store = Some FTS4"
  by (simp_all add: fts4_store_def Open_sqlite_fts4_empty)

lemma fts5_store_fields:
  "initialized fts5_store" "ftsVersion fts5_store = ''fts5''" "articles fts5_store = mash_rows"
  "fts_table fts5_store = Some FTS5"
  by (simp_all add: fts5_store_def Open_sqlite_fts5_empty)

lemma SearchTitles_initialized:
  "initialized s \<Longrightarrow> SearchTitles env query limit s =
     (let lim = (if limit \<le> 0 then 20 else limit)
      in if ftsVersion s = ''fts5'' \<or> ftsVersion s = ''fts4''
         then
           (case query_fts env ''rank'' (fts_query_of query) lim s of
              None \<Rightarrow>
                (let s2 = (say LogFTSQueryFailed s)\<lparr>ftsVersion := ''none''\<rparr>
                 in (search_like env query lim s2, s2))
            | Some titles \<Rightarrow> (Inr titles, s))
         else (search_like env query lim s, s))"
  by (auto simp: SearchTitles_def Open_initialized Let_def split: option.splits)

lemma search_like_length:
  "search_like env query lim s = Inr titles \<Longrightarrow> 0 < lim \<Longrightarrow> int (length titles) \<le> lim"
  by (auto simp: search_like_def query_like_def split: if_splits)

lemma query_fts_length:
  "query_fts env col expr lim s = Some titles \<Longrightarrow> 0 < lim \<Longrightarrow> int (length titles) \<le> lim"
  by (auto simp: query_fts_def split: option.splits if_splits)


lemma query_fts_refused:
  "fts_table s = Some g \<Longrightarrow> \<not> prepare_fails env order_by s \<Longrightarrow>
     fts_match env g (articles s) expr = None \<Longrightarrow> query_fts env order_by expr lim s = Some []"
  by (simp add: query_fts_def)

lemma query_fts_answered:
  "fts_table s = Some g \<Longrightarrow> \<not> prepare_fails env order_by s \<Longrightarrow>
     fts_match env g (articles s) expr = Some ts \<Longrightarrow>
     query_fts env order_by expr lim s = Some (take (nat lim) (distinct_first ts))"
  by (simp add: query_fts_def)

lemma prepare_ok_fts5: "fts_table s = Some FTS5 \<Longrightarrow> fts5_module env \<Longrightarrow> \<not> prepare_fails env ''rank'' s"
  by (simp add: prepare_fails_def module_available_def fts_columns_def)

lemma SearchTitles_length_aux:
  assumes "fst (SearchTitles env query limit s) = Inr titles"
  shows "int (length titles) \<le> (if limit \<le> 0 then 20 else limit)"
proof -
  let ?lim = "if limit \<le> 0 then 20 else limit"
  have pos: "0 < ?lim" by simp
  obtain res s1 where op: "Open env s = (res, s1)" by (cases "Open env s")
  show ?thesis
  proof (cases res)
    case (Some e)
    with op assms show ?thesis by (simp add: SearchTitles_def)
  next
    case None
    with op have i: "initialized s1" using Open_success_initialized by blast
    from None op have eq: "SearchTitles env query limit s = SearchTitles env query limit s1"
      by (simp add: SearchTitles_def Open_initialized [OF i])
    show ?thesis
    proof (cases "ftsVersion s1 = ''fts5'' \<or> ftsVersion s1 = ''fts4''")
      case False
      with assms eq have "search_like env query ?lim s1 = Inr titles"
        by (simp add: SearchTitles_initialized [OF i] Let_def)
      from search_like_length [OF this pos] show ?thesis .
    next
      case True
      show ?thesis
      proof (cases "query_fts env ''rank'' (fts_query_of query) ?lim s1")
        case None
        with True assms eq
        have "search_like env query ?lim ((say LogFTSQueryFailed s1)\<lparr>ftsVersion := ''none''\<rparr>) = Inr titles"
          by (simp add: SearchTitles_initialized [OF i] Let_def)
        from search_like_length [OF this pos] show ?thesis .
      next
        case (Some ts)
        with True assms eq have "ts = titles"
          by (simp add: SearchTitles_initialized [OF i] Let_def)
        with Some query_fts_length [OF _ pos] show ?thesis by blast
      qed
    qed
  qed
qed

lemma search_plain_anarch:
  "search_like sqlite_plain ''Anarch'' lim plain_store
     = Inr (take (nat lim) [''Anarchism'', ''Anarchy''])"
  by (simp add: search_like_def query_like_def sqlite_plain_def sqlite_full_def
      plain_store_fields anarchy_rows_def like_eval)

lemma search_plain_empty:
  "search_like sqlite_plain [] lim plain_store
     = Inr (take (nat lim) [''Anarchism'', ''Anarchy''])"
  by (simp add: search_like_def query_like_def sqlite_plain_def sqlite_full_def
      plain_store_fields anarchy_rows_def like_eval)

lemma distinct_first_example: "distinct_first [''b'', ''a'', ''b''] = [''b'', ''a'']"
  by (simp add: distinct_first_def)

text \<open>
  \<^verbatim>\<open>LIKE\<close> on examples: letters of ASCII match without regard to case, letters beyond
  ASCII do not; \<^verbatim>\<open>_\<close> stands for one character, be it of two bytes or a lead byte alone.
\<close>

lemma sql_like_examples:
  "sql_like ''%anarch%'' ''Anarchism''"
  "sql_like ''%AN_RCH%'' ''Anarchism''"
  "\<not> sql_like ''%x%'' ''Anarchism''"
  "\<not> sql_like ''Anarch'' ''Anarchism''"
  "\<not> sql_like [CHR 0xC3, CHR 0x89] [CHR 0xC3, CHR 0xA9]"
  "sql_like ''_'' [CHR 0xC3, CHR 0xA9]"
  "sql_like ''_'' [CHR 0xC3]"
  "\<not> sql_like ''_'' ''ab''"
  "sql_like ''a%'' [CHR ''a'', CHR 0x00, CHR ''b'']"
  by (simp_all add: like_eval cont_def utf8_lead_def utf8_fix_def)

section \<open>The index loader: idempotence and the treatment of lines\<close>

lemmas parse_simps = parse_line_def ParseInt_def is_digit_def digits_value_def byte_def
  numeral_3_eq_3 dropCR_def

lemma Open_sqlite_full_empty_state:
  "Open sqlite_full empty_store =
     (None, \<lparr>initialized = True, ftsVersion = ''fts5'', db_open = True,
        objects = [''articles'', ''idx_articles_title'', ''idx_articles_namespace'',
          ''idx_articles_redirect'', ''index_entries'', ''idx_index_entries_seek''],
        triggers = [(''articles_ai'', FTS5), (''articles_ad'', FTS5), (''articles_au'', FTS5)],
        fts_table = Some FTS5, articles = [], index_entries = [],
        logged = [LogUsing ''fts5'']\<rparr>)"
  by (simp add: Open_def createTables_def setup_fts_def sqlite_full_def empty_store_def
      create_object_def select_fts_sql_def probe_fts_def exec_create_fts_def module_available_def
      trigger_names_def create_trigger_def say_def Let_def)

lemma sqlite_full_no_fault: "\<forall>f. \<not> fault sqlite_full f"
  by (simp add: sqlite_full_def)

lemma index_pairs_sample: "index_pairs sample_index = [(597, 10), (597, 10), (597, 12)]"
  by (simp add: sample_index_def index_pairs_def List.map_filter_simps parse_simps)

lemma LoadIndex_sample:
  "index_entries (snd (LoadIndex sqlite_full 0 sample_index empty_store)) = [(597, 10), (597, 12)]"
proof -
  have short: "\<forall>r \<in> set sample_index. length r < maxTokenSize"
    by (simp add: sample_index_def maxTokenSize_def)
  have "index_entries (snd (index_loop sqlite_full 0 sample_index 0 []
           (say LogReadingIndex (snd (Open sqlite_full empty_store)))))
        = apply_inserts [] ([] @ index_pairs sample_index)"
    using index_loop_short [OF sqlite_full_no_fault order_refl short, of 0 "[]"
      "say LogReadingIndex (snd (Open sqlite_full empty_store))"]
    by (simp add: Open_sqlite_full_empty_state say_def)
  then show ?thesis
    by (simp add: LoadIndex_no_fault [OF sqlite_full_no_fault] index_pairs_sample
        insert_or_ignore_def)
qed

text \<open>
  C9. Running \<open>LoadIndex\<close> again on the same file, in the same process or in a new one
  over the same database, leaves \<open>index_entries\<close> exactly as the first run left it (the
  same rows in the same order), for every limit and every behaviour of the device that
  is the same in both runs, whether the first run succeeded or not. Inserting a pair that is present changes nothing, and a table
  without duplicate pairs stays without duplicates.
\<close>

theorem LoadIndex_idempotent:
  "index_entries (snd (LoadIndex env limit ls (snd (LoadIndex env limit ls s))))
     = index_entries (snd (LoadIndex env limit ls s))
   \<and> index_entries (snd (LoadIndex env limit ls (NewWiki (snd (LoadIndex env limit ls s)))))
     = index_entries (snd (LoadIndex env limit ls s))
   \<and> (e \<in> set rows \<longrightarrow> insert_or_ignore e rows = rows)
   \<and> (distinct (index_entries s) \<longrightarrow> distinct (index_entries (snd (LoadIndex env limit ls s))))"
  using LoadIndex_rerun [OF refl, of env limit ls s] LoadIndex_distinct [of s env limit ls]
  by (simp add: insert_or_ignore_def)

text \<open>
  The sample file, loaded into an empty database: its duplicated line is stored once,
  and the second run, in either process, changes nothing.
\<close>

theorem LoadIndex_idempotent_witness:
  "(597, 10) \<in> set [(597, 10), (597, 12)]
   \<and> insert_or_ignore (597, 10) [(597, 10), (597, 12)] = [(597, 10), (597, 12)]
   \<and> distinct (index_entries empty_store)
   \<and> index_entries (snd (LoadIndex sqlite_full 0 sample_index empty_store)) = [(597, 10), (597, 12)]
   \<and> index_entries (snd (LoadIndex sqlite_full 0 sample_index
         (snd (LoadIndex sqlite_full 0 sample_index empty_store)))) = [(597, 10), (597, 12)]
   \<and> index_entries (snd (LoadIndex sqlite_full 0 sample_index
         (NewWiki (snd (LoadIndex sqlite_full 0 sample_index empty_store))))) = [(597, 10), (597, 12)]"
  using LoadIndex_idempotent [of sqlite_full 0 sample_index empty_store "(597, 10)"
      "[(597, 10), (597, 12)]"] LoadIndex_sample
  by (simp add: empty_store_def)

text \<open>
  C3, as the code has it. (1) A line shorter than 16 KiB that does not parse is skipped
  without a trace: the run is the run on the file without that line, log included.
  (2) A line of 16 KiB or more ends the scan: nothing after it is read. (3) On a device
  without faults and without a limit, a file whose lines are all shorter than 16 KiB
  loads without error, and every pair its lines denote is inserted. (4) There, a line
  of 16 KiB or more makes \<open>LoadIndex\<close> return the scanner's error, and of the entries
  before it only the full batches of 10000 are stored: the open batch is lost.
\<close>

theorem LoadIndex_lines:
  "(length bad < maxTokenSize \<and> parse_line (dropCR bad) = None \<longrightarrow>
      LoadIndex env limit (pre @ bad # rest) s = LoadIndex env limit (pre @ rest) s)
   \<and> (maxTokenSize \<le> length long \<longrightarrow>
      LoadIndex env limit (pre @ long # rest) s = LoadIndex env limit (pre @ [long]) s)
   \<and> ((\<forall>f. \<not> fault env f) \<and> limit \<le> 0 \<and> (\<forall>r \<in> set pre. length r < maxTokenSize) \<longrightarrow>
      fst (LoadIndex env limit pre s) = None
      \<and> index_entries (snd (LoadIndex env limit pre s))
          = apply_inserts (index_entries s) (index_pairs pre))
   \<and> ((\<forall>f. \<not> fault env f) \<and> limit \<le> 0 \<and> (\<forall>r \<in> set pre. length r < maxTokenSize)
       \<and> maxTokenSize \<le> length long \<longrightarrow>
      fst (LoadIndex env limit (pre @ long # rest) s) = Some (ScannerError ErrTooLong)
      \<and> index_entries (snd (LoadIndex env limit (pre @ long # rest) s))
          = apply_inserts (index_entries s)
              (take (length (index_pairs pre) - length (index_pairs pre) mod batchSize_index)
                 (index_pairs pre)))"
proof (intro conjI impI)
  assume "length bad < maxTokenSize \<and> parse_line (dropCR bad) = None"
  then show "LoadIndex env limit (pre @ bad # rest) s = LoadIndex env limit (pre @ rest) s"
    by (intro LoadIndex_cong_loop index_loop_skip) simp_all
next
  assume "maxTokenSize \<le> length long"
  then show "LoadIndex env limit (pre @ long # rest) s = LoadIndex env limit (pre @ [long]) s"
    by (intro LoadIndex_cong_loop index_loop_cut)
next
  assume a: "(\<forall>f. \<not> fault env f) \<and> limit \<le> 0 \<and> (\<forall>r \<in> set pre. length r < maxTokenSize)"
  then have nf: "\<forall>f. \<not> fault env f" and lim: "limit \<le> 0"
    and short: "\<forall>r \<in> set pre. length r < maxTokenSize" by simp_all
  from index_loop_short [OF nf lim short, of 0 "[]" "say LogReadingIndex (snd (Open env s))"]
  show "fst (LoadIndex env limit pre s) = None"
    and "index_entries (snd (LoadIndex env limit pre s))
          = apply_inserts (index_entries s) (index_pairs pre)"
    using Open_rows [of env s] by (simp_all add: LoadIndex_no_fault [OF nf] say_def)
next
  assume a: "(\<forall>f. \<not> fault env f) \<and> limit \<le> 0 \<and> (\<forall>r \<in> set pre. length r < maxTokenSize)
       \<and> maxTokenSize \<le> length long"
  then have nf: "\<forall>f. \<not> fault env f" and lim: "limit \<le> 0"
    and short: "\<forall>r \<in> set pre. length r < maxTokenSize"
    and long: "maxTokenSize \<le> length long" by simp_all
  have z: "length ([]::(int \<times> int) list) = 0 mod batchSize_index" by simp
  from index_loop_long_batches [OF nf lim long short z, of rest
      "say LogReadingIndex (snd (Open env s))"]
  show "fst (LoadIndex env limit (pre @ long # rest) s) = Some (ScannerError ErrTooLong)"
    and "index_entries (snd (LoadIndex env limit (pre @ long # rest) s))
          = apply_inserts (index_entries s)
              (take (length (index_pairs pre) - length (index_pairs pre) mod batchSize_index)
                 (index_pairs pre))"
    using Open_rows [of env s] by (simp_all add: LoadIndex_no_fault [OF nf] say_def)
qed

lemma length_line_16KiB: "length line_16KiB = 16 * 1024"
  by (simp add: line_16KiB_def)

lemma length_line_20000: "length line_20000 = 20000"
  by (simp add: line_20000_def)

lemma parse_line_16KiB: "parse_line (dropCR line_16KiB) = Some (1, 2)"
  by (simp add: line_16KiB_def parse_simps)

lemma parse_line_20000: "parse_line (dropCR line_20000) = Some (1, 2)"
  by (simp add: line_20000_def parse_simps)

text \<open>The four cases on a three-line file over an empty database.\<close>

theorem LoadIndex_lines_witness:
  "length ''no colons here'' < maxTokenSize \<and> parse_line (dropCR ''no colons here'') = None
   \<and> maxTokenSize \<le> length line_16KiB
   \<and> (\<forall>f. \<not> fault sqlite_full f) \<and> (0::int) \<le> 0
   \<and> length ''597:10:AccessibleComputing'' < maxTokenSize
   \<and> LoadIndex sqlite_full 0 ([''597:10:AccessibleComputing''] @ ''no colons here'' # [''10:12:Anarchism''])
        empty_store
      = LoadIndex sqlite_full 0 ([''597:10:AccessibleComputing''] @ [''10:12:Anarchism'']) empty_store
   \<and> LoadIndex sqlite_full 0 ([''597:10:AccessibleComputing''] @ line_16KiB # [''10:12:Anarchism''])
        empty_store
      = LoadIndex sqlite_full 0 ([''597:10:AccessibleComputing''] @ [line_16KiB]) empty_store
   \<and> fst (LoadIndex sqlite_full 0 [''597:10:AccessibleComputing''] empty_store) = None
   \<and> index_entries (snd (LoadIndex sqlite_full 0 [''597:10:AccessibleComputing''] empty_store))
      = [(597, 10)]
   \<and> fst (LoadIndex sqlite_full 0
        ([''597:10:AccessibleComputing''] @ line_16KiB # [''10:12:Anarchism'']) empty_store)
      = Some (ScannerError ErrTooLong)
   \<and> index_entries (snd (LoadIndex sqlite_full 0
        ([''597:10:AccessibleComputing''] @ line_16KiB # [''10:12:Anarchism'']) empty_store)) = []"
proof -
  have h1: "length ''no colons here'' < maxTokenSize \<and> parse_line (dropCR ''no colons here'') = None"
    by (simp add: maxTokenSize_def parse_simps)
  have h2: "maxTokenSize \<le> length line_16KiB"
    by (simp add: maxTokenSize_def length_line_16KiB)
  have p: "index_pairs [''597:10:AccessibleComputing''] = [(597, 10)]"
    by (simp add: index_pairs_def List.map_filter_simps parse_simps)
  have h3: "(\<forall>f. \<not> fault sqlite_full f) \<and> (0::int) \<le> 0
     \<and> (\<forall>r \<in> set [''597:10:AccessibleComputing'']. length r < maxTokenSize)"
    by (simp add: sqlite_full_no_fault maxTokenSize_def)
  have e: "index_entries empty_store = []"
    by (simp add: empty_store_def)
  note t = LoadIndex_lines [of "''no colons here''" sqlite_full 0 "[''597:10:AccessibleComputing'']"
      "[''10:12:Anarchism'']" empty_store line_16KiB]
  from t h1 have c1: "LoadIndex sqlite_full 0
        ([''597:10:AccessibleComputing''] @ ''no colons here'' # [''10:12:Anarchism'']) empty_store
      = LoadIndex sqlite_full 0 ([''597:10:AccessibleComputing''] @ [''10:12:Anarchism'']) empty_store"
    by blast
  from t h2 have c2: "LoadIndex sqlite_full 0
        ([''597:10:AccessibleComputing''] @ line_16KiB # [''10:12:Anarchism'']) empty_store
      = LoadIndex sqlite_full 0 ([''597:10:AccessibleComputing''] @ [line_16KiB]) empty_store"
    by blast
  from t h3 have c3: "fst (LoadIndex sqlite_full 0 [''597:10:AccessibleComputing''] empty_store) = None
      \<and> index_entries (snd (LoadIndex sqlite_full 0 [''597:10:AccessibleComputing''] empty_store))
          = apply_inserts (index_entries empty_store) (index_pairs [''597:10:AccessibleComputing''])"
    by blast
  from t h2 h3 have "fst (LoadIndex sqlite_full 0
        ([''597:10:AccessibleComputing''] @ line_16KiB # [''10:12:Anarchism'']) empty_store)
      = Some (ScannerError ErrTooLong)
      \<and> index_entries (snd (LoadIndex sqlite_full 0
        ([''597:10:AccessibleComputing''] @ line_16KiB # [''10:12:Anarchism'']) empty_store))
      = apply_inserts (index_entries empty_store)
          (take (length (index_pairs [''597:10:AccessibleComputing''])
                  - length (index_pairs [''597:10:AccessibleComputing'']) mod batchSize_index)
             (index_pairs [''597:10:AccessibleComputing'']))"
    by blast
  then have c4: "fst (LoadIndex sqlite_full 0
        ([''597:10:AccessibleComputing''] @ line_16KiB # [''10:12:Anarchism'']) empty_store)
      = Some (ScannerError ErrTooLong)
      \<and> index_entries (snd (LoadIndex sqlite_full 0
        ([''597:10:AccessibleComputing''] @ line_16KiB # [''10:12:Anarchism'']) empty_store))
      = index_entries empty_store"
    by (simp add: p batchSize_index_def)
  from c3 have c3': "index_entries (snd (LoadIndex sqlite_full 0 [''597:10:AccessibleComputing'']
      empty_store)) = [(597, 10)]"
    by (simp add: p e insert_or_ignore_def)
  have h5: "length ''597:10:AccessibleComputing'' < maxTokenSize"
    by (simp add: maxTokenSize_def)
  from h1 h2 h3 h5 c1 c2 c3 c3' c4 e show ?thesis
    by (elim conjE, intro conjI) (assumption | simp only:)+
qed

text \<open>
  A well-formed line of exactly 16 KiB, and one of 20000 bytes, each followed by a good
  line: \<open>LoadIndex\<close> returns \<^verbatim>\<open>bufio.ErrTooLong\<close> wrapped as a scanner error and the
  table stays empty; the good line after it is never read.
\<close>

theorem LoadIndex_long_line_counterexample:
  "length line_16KiB = 16 * 1024
   \<and> parse_line (dropCR line_16KiB) = Some (1, 2)
   \<and> fst (LoadIndex sqlite_full 0 [line_16KiB, ''597:10:AccessibleComputing''] empty_store)
       = Some (ScannerError ErrTooLong)
   \<and> index_entries (snd (LoadIndex sqlite_full 0 [line_16KiB, ''597:10:AccessibleComputing'']
       empty_store)) = []
   \<and> length line_20000 = 20000
   \<and> fst (LoadIndex sqlite_full 0 [line_20000, ''597:10:AccessibleComputing''] empty_store)
       = Some (ScannerError ErrTooLong)
   \<and> index_entries (snd (LoadIndex sqlite_full 0 [line_20000, ''597:10:AccessibleComputing'']
       empty_store)) = []"
  by (simp add: LoadIndex_no_fault [OF sqlite_full_no_fault] index_step_def
      length_line_16KiB length_line_20000 parse_line_16KiB parse_line_20000 maxTokenSize_def
      Open_sqlite_full_empty_state say_def)

section \<open>The queries: limits, the empty query, demotion, lookup by title\<close>

text \<open>
  C6, as the code has it. A search that returns titles returns at most \<open>limit\<close> of them
  when \<open>limit\<close> is positive, and at most 20 when it is not: a limit that is not positive
  is replaced by 20 before either query is issued.
\<close>

theorem SearchTitles_length:
  "fst (SearchTitles env query limit s) = Inr titles \<Longrightarrow>
     int (length titles) \<le> (if limit \<le> 0 then 20 else limit)"
  by (rule SearchTitles_length_aux)

text \<open>Two titles match, the limit is 1: one title is returned.\<close>

theorem SearchTitles_length_witness:
  "fst (SearchTitles sqlite_plain ''Anarch'' 1 plain_store) = Inr [''Anarchism'']
   \<and> int (length [''Anarchism'']) \<le> (if (1::int) \<le> 0 then 20 else 1)"
proof -
  have h: "fst (SearchTitles sqlite_plain ''Anarch'' 1 plain_store) = Inr [''Anarchism'']"
    by (simp add: SearchTitles_initialized plain_store_fields search_plain_anarch)
  from SearchTitles_length [OF h] h show ?thesis by simp
qed

text \<open>With the limit 0 the same search returns both titles: more than 0.\<close>

theorem SearchTitles_limit_zero_counterexample:
  "fst (SearchTitles sqlite_plain ''Anarch'' 0 plain_store) = Inr [''Anarchism'', ''Anarchy'']
   \<and> \<not> int (length [''Anarchism'', ''Anarchy'']) \<le> 0"
  by (simp add: SearchTitles_initialized plain_store_fields search_plain_anarch)

lemma search_like_empty_query:
  "\<not> fault env SearchFailed \<Longrightarrow>
     search_like env [] lim s = Inr (take (nat lim) (sort (remdups (map Title (articles s)))))"
  by (simp add: search_like_def query_like_def sql_like_all max_like_pattern_def)

lemma sort_remdups_Nil: "sort (remdups xs) = [] \<longleftrightarrow> xs = []"
  by (metis remdups_eq_nil_iff set_empty set_sort)

lemma SearchTitles_refused:
  assumes "initialized s" "ftsVersion s = ''fts5''" "fts_table s = Some FTS5" "fts5_module env"
    and "fts_match env FTS5 (articles s) (fts_query_of query) = None"
  shows "SearchTitles env query limit s = (Inr [], s)"
  using assms
  by (simp add: SearchTitles_initialized query_fts_refused [OF assms(3) prepare_ok_fts5])

text \<open>
  C4, as the code has it. The empty query reaches the engine: the full-text expression
  is \<^verbatim>\<open>*\<close> and the pattern of \<^verbatim>\<open>LIKE\<close> is \<^verbatim>\<open>%%\<close>. In mode \<^verbatim>\<open>fts5\<close>, where the engine
  refuses the expression \<^verbatim>\<open>*\<close>, the call returns the empty list and leaves the state as
  it is, for every limit and whatever rows the table holds. In mode \<^verbatim>\<open>none\<close> every title
  matches \<^verbatim>\<open>%%\<close>: unless the query itself fails, the call returns the first \<open>limit\<close>
  titles (20 when \<open>limit\<close> is not positive) in ascending order, and the empty list only
  when \<open>articles\<close> has no rows.
\<close>

theorem SearchTitles_empty_query:
  "fts_query_of [] = ''*''
   \<and> (initialized s \<and> ftsVersion s = ''fts5'' \<and> fts_table s = Some FTS5 \<and> fts5_module env
        \<and> fts_match env FTS5 (articles s) ''*'' = None \<longrightarrow>
        SearchTitles env [] limit s = (Inr [], s))
   \<and> (initialized t \<and> ftsVersion t = ''none'' \<and> \<not> fault env' SearchFailed \<longrightarrow>
        SearchTitles env' [] limit' t
          = (Inr (take (nat (if limit' \<le> 0 then 20 else limit'))
                   (sort (remdups (map Title (articles t))))), t)
        \<and> (fst (SearchTitles env' [] limit' t) = Inr [] \<longleftrightarrow> articles t = []))"
proof (intro conjI impI)
  show q: "fts_query_of [] = ''*''" by (simp add: fts_query_of_def ReplaceAll_def)
next
  assume a: "initialized s \<and> ftsVersion s = ''fts5'' \<and> fts_table s = Some FTS5 \<and> fts5_module env
        \<and> fts_match env FTS5 (articles s) ''*'' = None"
  have q: "fts_query_of [] = ''*''" by (simp add: fts_query_of_def ReplaceAll_def)
  from a show "SearchTitles env [] limit s = (Inr [], s)"
    by (intro SearchTitles_refused) (simp_all add: q)
next
  assume a: "initialized t \<and> ftsVersion t = ''none'' \<and> \<not> fault env' SearchFailed"
  then show r: "SearchTitles env' [] limit' t
          = (Inr (take (nat (if limit' \<le> 0 then 20 else limit'))
                   (sort (remdups (map Title (articles t))))), t)"
    by (simp add: SearchTitles_initialized search_like_empty_query)
  have "0 < nat (if limit' \<le> 0 then 20 else limit')" by simp
  then have "take (nat (if limit' \<le> 0 then 20 else limit')) (sort (remdups (map Title (articles t)))) = []
      \<longleftrightarrow> articles t = []"
    using sort_remdups_Nil [of "map Title (articles t)"] by (simp add: take_eq_Nil)
  with r show "fst (SearchTitles env' [] limit' t) = Inr [] \<longleftrightarrow> articles t = []"
    by simp
qed

lemma query_fts4_rank: "fts_table s = Some FTS4 \<Longrightarrow> query_fts env ''rank'' expr lim s = None"
  by (simp add: query_fts_def prepare_fails_def fts_columns_def)

lemma sqlite_fts5_fields:
  "fts5_module sqlite_fts5" "\<not> fault sqlite_fts5 f"
  "fts_match sqlite_fts5 g rows (CHR ''*'' # expr) = None"
  by (simp_all add: sqlite_fts5_def sqlite_full_def)

text \<open>
  The empty query on a database of two rows: with generation 5 the engine refuses the
  expression and no title is returned; without full-text search both titles are.
\<close>

theorem SearchTitles_empty_query_witness:
  "initialized fts5_store \<and> ftsVersion fts5_store = ''fts5'' \<and> fts_table fts5_store = Some FTS5
   \<and> fts5_module sqlite_fts5 \<and> fts_match sqlite_fts5 FTS5 (articles fts5_store) ''*'' = None
   \<and> SearchTitles sqlite_fts5 [] 5 fts5_store = (Inr [], fts5_store)
   \<and> initialized plain_store \<and> ftsVersion plain_store = ''none'' \<and> \<not> fault sqlite_plain SearchFailed
   \<and> SearchTitles sqlite_plain [] 5 plain_store = (Inr [''Anarchism'', ''Anarchy''], plain_store)"
proof -
  have g: "initialized fts5_store \<and> ftsVersion fts5_store = ''fts5'' \<and> fts_table fts5_store = Some FTS5
      \<and> fts5_module sqlite_fts5 \<and> fts_match sqlite_fts5 FTS5 (articles fts5_store) ''*'' = None"
    by (simp add: fts5_store_fields sqlite_fts5_fields)
  have h: "initialized plain_store \<and> ftsVersion plain_store = ''none''
      \<and> \<not> fault sqlite_plain SearchFailed"
    by (simp add: plain_store_fields sqlite_plain_def sqlite_full_def)
  note t = SearchTitles_empty_query [of fts5_store sqlite_fts5 5 plain_store sqlite_plain 5]
  from t g have c1: "SearchTitles sqlite_fts5 [] 5 fts5_store = (Inr [], fts5_store)"
    by blast
  from t h
  have "SearchTitles sqlite_plain [] 5 plain_store
          = (Inr (take (nat (if (5::int) \<le> 0 then 20 else 5))
                   (sort (remdups (map Title (articles plain_store))))), plain_store)"
    by blast
  then have c2: "SearchTitles sqlite_plain [] 5 plain_store
      = (Inr [''Anarchism'', ''Anarchy''], plain_store)"
    by (simp add: plain_store_fields anarchy_rows_def)
  from g h c1 c2 show ?thesis by blast
qed

text \<open>So in mode \<^verbatim>\<open>none\<close> the empty query does not return the empty list.\<close>

theorem SearchTitles_empty_query_counterexample:
  "fst (SearchTitles sqlite_plain [] 5 plain_store) = Inr [''Anarchism'', ''Anarchy'']
   \<and> [''Anarchism'', ''Anarchy''] \<noteq> ([]::string list)"
  by (simp add: SearchTitles_initialized plain_store_fields search_plain_empty)

lemma demoted_fields:
  "initialized ((say e s)\<lparr>ftsVersion := ''none''\<rparr>) = initialized s"
  "ftsVersion ((say e s)\<lparr>ftsVersion := ''none''\<rparr>) = ''none''"
  "articles ((say e s)\<lparr>ftsVersion := ''none''\<rparr>) = articles s"
  by (simp_all add: say_def)



lemma search_like_articles:
  "articles s' = articles s \<Longrightarrow> search_like env query lim s' = search_like env query lim s"
  by (simp add: search_like_def query_like_def)


lemma search_fts4_store:
  "search_like sqlite_fts4 ''Anarch'' lim fts4_store
     = Inr (take (nat lim) [''Anarchism'', ''Anarchy''])"
  by (simp add: search_like_def query_like_def sqlite_fts4_def sqlite_full_def
      fts4_store_fields anarchy_rows_def like_eval)




text \<open>
  In mode \<^verbatim>\<open>fts5\<close> on a generation-5 table a search that the engine accepts returns the
  matching titles in the order of \<^verbatim>\<open>rank\<close>, each once at its best rank, cut at the
  limit.
\<close>

lemma SearchTitles_fts5_order:
  assumes "initialized s" "ftsVersion s = ''fts5''" "fts_table s = Some FTS5" "fts5_module env"
    and "fts_match env FTS5 (articles s) (fts_query_of query) = Some ranked"
  shows "SearchTitles env query limit s
           = (Inr (take (nat (if limit \<le> 0 then 20 else limit)) (distinct_first ranked)), s)"
  using assms
  by (simp add: SearchTitles_initialized query_fts_answered [OF assms(3) prepare_ok_fts5])

text \<open>
  C2, where the code departs from it. In mode \<^verbatim>\<open>fts4\<close> the statement orders by \<^verbatim>\<open>rank\<close>,
  which is no column of a generation-4 table: here the engine would rank \<^verbatim>\<open>Anarchy\<close>
  before \<^verbatim>\<open>Anarchism\<close>, but the query fails, the mode drops to \<^verbatim>\<open>none\<close> and the titles
  come back in the order of \<^verbatim>\<open>ORDER BY title\<close>.
\<close>

theorem SearchTitles_fts4_order:
  "ftsVersion fts4_store = ''fts4''
   \<and> fts_match sqlite_fts4 FTS4 (articles fts4_store) (fts_query_of ''Anarch'')
       = Some [''Anarchy'', ''Anarchism'']
   \<and> SearchTitles sqlite_fts4 ''Anarch'' 5 fts4_store
       = (Inr [''Anarchism'', ''Anarchy''], (say LogFTSQueryFailed fts4_store)\<lparr>ftsVersion := ''none''\<rparr>)"
proof -
  have m: "fts_match sqlite_fts4 FTS4 (articles fts4_store) (fts_query_of ''Anarch'')
       = Some [''Anarchy'', ''Anarchism'']"
    by (simp add: sqlite_fts4_def fts4_store_fields anarchy_rows_def fts_query_of_def ReplaceAll_def)
  have q: "query_fts sqlite_fts4 ''rank'' (fts_query_of ''Anarch'') 5 fts4_store = None"
    by (rule query_fts4_rank) (rule fts4_store_fields)
  have a: "articles ((say LogFTSQueryFailed fts4_store)\<lparr>ftsVersion := ''none''\<rparr>) = articles fts4_store"
    by (simp add: say_def)
  have "SearchTitles sqlite_fts4 ''Anarch'' 5 fts4_store
       = (Inr [''Anarchism'', ''Anarchy''], (say LogFTSQueryFailed fts4_store)\<lparr>ftsVersion := ''none''\<rparr>)"
    using search_fts4_store [of 5]
    by (simp add: SearchTitles_initialized fts4_store_fields q search_like_articles [OF a])
  with m show ?thesis by (simp add: fts4_store_fields)
qed

lemma ascii_lower_value: "ascii_lower c = lower_letter c"
  by (cases c) (auto simp: ascii_lower_def lower_letter_def byte_def char_of_def bit_Suc_0_iff)

lemma sql_lower_value: "sql_lower t = map lower_letter t"
  by (simp add: sql_lower_def ascii_lower_value)

lemma ToLower_value: "\<forall>c \<in> set t. byte c < 128 \<Longrightarrow> strings_ToLower env t = map lower_letter t"
  by (simp add: strings_ToLower_def ascii_lower_value)

lemma first_row_Some:
  assumes "first_row P rows = Some a"
  shows "a \<in> set rows \<and> P a \<and> (\<forall>r \<in> set rows. P r \<longrightarrow> ID a \<le> ID r)"
proof -
  let ?xs = "sort_key ID rows"
  from assms have f: "find P ?xs = Some a" by (simp add: first_row_def)
  then obtain i where i: "i < length ?xs" "P (?xs ! i)" "a = ?xs ! i" "\<forall>j<i. \<not> P (?xs ! j)"
    by (auto simp: find_Some_iff)
  have s: "sorted (map ID ?xs)" by simp
  have "\<forall>r \<in> set rows. P r \<longrightarrow> ID a \<le> ID r"
  proof (intro ballI impI)
    fix r assume "r \<in> set rows" "P r"
    then have "r \<in> set ?xs" by simp
    then obtain j where j: "j < length ?xs" "?xs ! j = r" by (metis in_set_conv_nth)
    with \<open>P r\<close> i(4) have "i \<le> j" by (metis not_le)
    with s j(1) have "map ID ?xs ! i \<le> map ID ?xs ! j"
      by (intro sorted_nth_mono) simp_all
    with i j \<open>i \<le> j\<close> show "ID a \<le> ID r" by simp
  qed
  moreover from i(1,3) have "a \<in> set ?xs" by (metis nth_mem)
  then have "a \<in> set rows" by simp
  ultimately show ?thesis using i(2,3) by simp
qed

lemma first_row_exists: "\<exists>x \<in> set rows. P x \<Longrightarrow> \<exists>a. first_row P rows = Some a"
  unfolding first_row_def by (metis find_None_iff2 not_Some_eq set_sort)

lemma first_row_None: "\<forall>x \<in> set rows. \<not> P x \<Longrightarrow> first_row P rows = None"
  unfolding first_row_def by (simp add: find_None_iff)

lemma first_row_only:
  assumes "a \<in> set rows" "P a" "\<forall>r \<in> set rows. P r \<longrightarrow> r = a"
  shows "first_row P rows = Some a"
proof -
  from assms(1,2) first_row_exists [of rows P] obtain x where x: "first_row P rows = Some x"
    by blast
  with first_row_Some [OF x] assms(3) show ?thesis by blast
qed

lemma GetArticle_opened:
  "Open env s = (None, s1) \<Longrightarrow> GetArticle env title s =
     (case first_row (\<lambda>r. Title r = title) (articles s1) of
        Some article \<Rightarrow> (Inr article, s1)
      | None \<Rightarrow>
          (case first_row (\<lambda>r. sql_lower (Title r) = sql_lower (title_case env (strings_ToLower env title)))
                  (articles s1) of
             None \<Rightarrow> (Inl (ArticleNotFound title), s1)
           | Some article \<Rightarrow> (Inr article, s1)))"
  by (simp add: GetArticle_def Let_def split: option.splits)

lemma GetArticle_exact:
  assumes "Open env s = (None, s1)" "\<exists>r \<in> set (articles s1). Title r = title"
  shows "\<exists>a. GetArticle env title s = (Inr a, s1) \<and> a \<in> set (articles s1) \<and> Title a = title
           \<and> (\<forall>r \<in> set (articles s1). Title r = title \<longrightarrow> ID a \<le> ID r)"
proof -
  from first_row_exists [OF assms(2)] obtain a
    where f: "first_row (\<lambda>r. Title r = title) (articles s1) = Some a"
    by blast
  with first_row_Some [OF f] show ?thesis by (simp add: GetArticle_opened [OF assms(1)])
qed

lemma GetArticle_folded:
  assumes "Open env s = (None, s1)" "\<forall>r \<in> set (articles s1). Title r \<noteq> title"
    and "\<exists>r \<in> set (articles s1).
           sql_lower (Title r) = sql_lower (title_case env (strings_ToLower env title))"
  shows "\<exists>a. GetArticle env title s = (Inr a, s1) \<and> a \<in> set (articles s1)
           \<and> sql_lower (Title a) = sql_lower (title_case env (strings_ToLower env title))
           \<and> (\<forall>r \<in> set (articles s1).
                 sql_lower (Title r) = sql_lower (title_case env (strings_ToLower env title))
                 \<longrightarrow> ID a \<le> ID r)"
proof -
  have n: "first_row (\<lambda>r. Title r = title) (articles s1) = None"
    using assms(2) by (intro first_row_None) simp
  from first_row_exists [OF assms(3)] obtain a
    where f: "first_row (\<lambda>r. sql_lower (Title r) = sql_lower (title_case env (strings_ToLower env title)))
                (articles s1) = Some a"
    by blast
  with first_row_Some [OF f] n show ?thesis by (simp add: GetArticle_opened [OF assms(1)])
qed

lemma GetArticle_missing:
  assumes "Open env s = (None, s1)" "\<forall>r \<in> set (articles s1). \<not> title_matches env title r"
  shows "GetArticle env title s = (Inl (ArticleNotFound title), s1)"
proof -
  have n: "first_row (\<lambda>r. Title r = title) (articles s1) = None"
    using assms(2) by (intro first_row_None) (simp add: title_matches_def)
  have m: "first_row (\<lambda>r. sql_lower (Title r) = sql_lower (title_case env (strings_ToLower env title)))
                (articles s1) = None"
    using assms(2) by (intro first_row_None) (simp add: title_matches_def)
  from n m show ?thesis by (simp add: GetArticle_opened [OF assms(1)])
qed

text \<open>
  The folded lookup when one row alone bears the title up to the case of its letters:
  \<open>lowered\<close> is the query in lower case, \<open>cased\<close> what the title caser makes of it.
\<close>

lemma GetArticle_only:
  assumes o: "Open env s = (None, s1)"
    and low: "strings_ToLower env title = lowered"
    and tc: "title_case env lowered = cased"
    and key: "map lower_letter cased = key"
    and a: "a \<in> set (articles s1)" "Title a \<noteq> title" "map lower_letter (Title a) = key"
    and others: "\<forall>r \<in> set (articles s1). r \<noteq> a \<longrightarrow>
        Title r \<noteq> title \<and> map lower_letter (Title r) \<noteq> key"
  shows "GetArticle env title s = (Inr a, s1)"
proof -
  have n: "first_row (\<lambda>r. Title r = title) (articles s1) = None"
  proof (rule first_row_None, rule ballI)
    fix r assume "r \<in> set (articles s1)"
    with a(2) others show "Title r \<noteq> title" by (cases "r = a") simp_all
  qed
  have k: "sql_lower (title_case env (strings_ToLower env title)) = key"
    unfolding low tc sql_lower_value by (rule key)
  have "first_row (\<lambda>r. sql_lower (Title r) = key) (articles s1) = Some a"
  proof (rule first_row_only)
    show "a \<in> set (articles s1)" by (rule a(1))
    show "sql_lower (Title a) = key" unfolding sql_lower_value by (rule a(3))
    show "\<forall>r \<in> set (articles s1). sql_lower (Title r) = key \<longrightarrow> r = a"
      unfolding sql_lower_value using others by blast
  qed
  with n k show ?thesis by (simp add: GetArticle_opened [OF o])
qed

lemma lower_anarchism:
  "strings_ToLower env ''anarchism'' = ''anarchism''"
  "map lower_letter ''Anarchism'' = ''anarchism''"
  "map lower_letter ''anarchism'' = ''anarchism''"
  by (simp_all add: ascii_lower_value [symmetric] strings_ToLower_def byte_def ascii_lower_def)

lemma lower_accessible:
  "strings_ToLower env ''ACCESSIBLECOMPUTING'' = ''accessiblecomputing''"
  "map lower_letter ''AccessibleComputing'' = ''accessiblecomputing''"
  "map lower_letter ''Accessiblecomputing'' = ''accessiblecomputing''"
  "map lower_letter ''ACCESSIBLECOMPUTING'' = ''accessiblecomputing''"
  by (simp_all add: ascii_lower_value [symmetric] strings_ToLower_def byte_def ascii_lower_def)

text \<open>
  C8. After a successful \<open>Open\<close>: (1) a title that some row bears exactly is answered with
  such a row, the one of lowest id. (2) \<^verbatim>\<open>LOWER\<close> puts the letters \<^verbatim>\<open>A\<close>..\<^verbatim>\<open>Z\<close> in lower
  case and leaves every other byte, and so does \<^verbatim>\<open>strings.ToLower\<close> on a title of ASCII.
  (3) A title that no row bears exactly is put in lower case and given to the title
  caser; when the result equals a row's title after \<^verbatim>\<open>LOWER\<close> on both sides, the answer is
  such a row, the one of lowest id. (4) A title that matches no row either way is
  answered with \<^verbatim>\<open>article not found\<close> carrying the title as it was asked. (5) So
  \<^verbatim>\<open>anarchism\<close> finds the article \<^verbatim>\<open>Anarchism\<close> when no other row bears that title up to
  case, and (6) \<^verbatim>\<open>ACCESSIBLECOMPUTING\<close> finds \<^verbatim>\<open>AccessibleComputing\<close>, which takes both
  the lowering of the query and the comparison without regard to case: the title caser
  makes \<^verbatim>\<open>Accessiblecomputing\<close> of it.
\<close>

theorem GetArticle_lookup:
  assumes "Open env s = (None, s1)"
  shows "((\<exists>r \<in> set (articles s1). Title r = exact) \<longrightarrow>
            (\<exists>a. GetArticle env exact s = (Inr a, s1) \<and> a \<in> set (articles s1) \<and> Title a = exact
               \<and> (\<forall>r \<in> set (articles s1). Title r = exact \<longrightarrow> ID a \<le> ID r)))
    \<and> sql_lower t = map lower_letter t
    \<and> ((\<forall>c \<in> set t. byte c < 128) \<longrightarrow> strings_ToLower env t = map lower_letter t)
    \<and> ((\<forall>r \<in> set (articles s1). Title r \<noteq> folded)
         \<and> (\<exists>r \<in> set (articles s1).
               sql_lower (Title r) = sql_lower (title_case env (strings_ToLower env folded))) \<longrightarrow>
            (\<exists>a. GetArticle env folded s = (Inr a, s1) \<and> a \<in> set (articles s1)
               \<and> sql_lower (Title a) = sql_lower (title_case env (strings_ToLower env folded))
               \<and> (\<forall>r \<in> set (articles s1).
                     sql_lower (Title r) = sql_lower (title_case env (strings_ToLower env folded))
                     \<longrightarrow> ID a \<le> ID r)))
    \<and> ((\<forall>r \<in> set (articles s1). \<not> title_matches env missing r) \<longrightarrow>
            GetArticle env missing s = (Inl (ArticleNotFound missing), s1))
    \<and> (a \<in> set (articles s1) \<and> Title a = ''Anarchism''
         \<and> (\<forall>r \<in> set (articles s1). r \<noteq> a \<longrightarrow> map lower_letter (Title r) \<noteq> ''anarchism'')
         \<and> title_case env ''anarchism'' = ''Anarchism'' \<longrightarrow>
            GetArticle env ''anarchism'' s = (Inr a, s1))
    \<and> (b \<in> set (articles s1) \<and> Title b = ''AccessibleComputing''
         \<and> (\<forall>r \<in> set (articles s1). r \<noteq> b \<longrightarrow> map lower_letter (Title r) \<noteq> ''accessiblecomputing'')
         \<and> title_case env ''accessiblecomputing'' = ''Accessiblecomputing'' \<longrightarrow>
            GetArticle env ''ACCESSIBLECOMPUTING'' s = (Inr b, s1))"
proof (intro conjI impI)
  assume "\<exists>r \<in> set (articles s1). Title r = exact"
  with assms show "\<exists>a. GetArticle env exact s = (Inr a, s1) \<and> a \<in> set (articles s1) \<and> Title a = exact
               \<and> (\<forall>r \<in> set (articles s1). Title r = exact \<longrightarrow> ID a \<le> ID r)"
    by (rule GetArticle_exact)
next
  show "sql_lower t = map lower_letter t" by (rule sql_lower_value)
next
  assume "\<forall>c \<in> set t. byte c < 128"
  then show "strings_ToLower env t = map lower_letter t" by (rule ToLower_value)
next
  assume "(\<forall>r \<in> set (articles s1). Title r \<noteq> folded)
         \<and> (\<exists>r \<in> set (articles s1).
               sql_lower (Title r) = sql_lower (title_case env (strings_ToLower env folded)))"
  with assms show "\<exists>a. GetArticle env folded s = (Inr a, s1) \<and> a \<in> set (articles s1)
               \<and> sql_lower (Title a) = sql_lower (title_case env (strings_ToLower env folded))
               \<and> (\<forall>r \<in> set (articles s1).
                     sql_lower (Title r) = sql_lower (title_case env (strings_ToLower env folded))
                     \<longrightarrow> ID a \<le> ID r)"
    by (intro GetArticle_folded) simp_all
next
  assume "\<forall>r \<in> set (articles s1). \<not> title_matches env missing r"
  with assms show "GetArticle env missing s = (Inl (ArticleNotFound missing), s1)"
    by (rule GetArticle_missing)
next
  assume h: "a \<in> set (articles s1) \<and> Title a = ''Anarchism''
         \<and> (\<forall>r \<in> set (articles s1). r \<noteq> a \<longrightarrow> map lower_letter (Title r) \<noteq> ''anarchism'')
         \<and> title_case env ''anarchism'' = ''Anarchism''"
  then have h1: "a \<in> set (articles s1)" and h2: "Title a = ''Anarchism''"
    and h3: "\<forall>r \<in> set (articles s1). r \<noteq> a \<longrightarrow> map lower_letter (Title r) \<noteq> ''anarchism''"
    and h4: "title_case env ''anarchism'' = ''Anarchism''"
    by (rule conjunct1, rule conjunct2 [THEN conjunct1],
        rule conjunct2 [THEN conjunct2, THEN conjunct1],
        rule conjunct2 [THEN conjunct2, THEN conjunct2])
  have others: "\<forall>r \<in> set (articles s1). r \<noteq> a \<longrightarrow>
        Title r \<noteq> ''anarchism'' \<and> map lower_letter (Title r) \<noteq> ''anarchism''"
  proof (intro ballI impI conjI)
    fix r assume r: "r \<in> set (articles s1)" "r \<noteq> a"
    show k: "map lower_letter (Title r) \<noteq> ''anarchism''"
      by (rule bspec [OF h3 r(1), THEN mp, OF r(2)])
    show "Title r \<noteq> ''anarchism''"
    proof
      assume "Title r = ''anarchism''"
      then have "map lower_letter (Title r) = map lower_letter ''anarchism''" by (rule arg_cong)
      then have "map lower_letter (Title r) = ''anarchism''" by (simp only: lower_anarchism(3))
      with k show False by (rule notE)
    qed
  qed
  have ta: "Title a \<noteq> ''anarchism''" unfolding h2 by simp
  have ka: "map lower_letter (Title a) = ''anarchism''" unfolding h2 by (rule lower_anarchism(2))
  show "GetArticle env ''anarchism'' s = (Inr a, s1)"
    by (rule GetArticle_only [OF assms lower_anarchism(1) h4 lower_anarchism(2) h1 ta ka others])
next
  assume h: "b \<in> set (articles s1) \<and> Title b = ''AccessibleComputing''
         \<and> (\<forall>r \<in> set (articles s1). r \<noteq> b \<longrightarrow> map lower_letter (Title r) \<noteq> ''accessiblecomputing'')
         \<and> title_case env ''accessiblecomputing'' = ''Accessiblecomputing''"
  then have h1: "b \<in> set (articles s1)" and h2: "Title b = ''AccessibleComputing''"
    and h3: "\<forall>r \<in> set (articles s1). r \<noteq> b \<longrightarrow> map lower_letter (Title r) \<noteq> ''accessiblecomputing''"
    and h4: "title_case env ''accessiblecomputing'' = ''Accessiblecomputing''"
    by (rule conjunct1, rule conjunct2 [THEN conjunct1],
        rule conjunct2 [THEN conjunct2, THEN conjunct1],
        rule conjunct2 [THEN conjunct2, THEN conjunct2])
  have others: "\<forall>r \<in> set (articles s1). r \<noteq> b \<longrightarrow>
        Title r \<noteq> ''ACCESSIBLECOMPUTING'' \<and> map lower_letter (Title r) \<noteq> ''accessiblecomputing''"
  proof (intro ballI impI conjI)
    fix r assume r: "r \<in> set (articles s1)" "r \<noteq> b"
    show k: "map lower_letter (Title r) \<noteq> ''accessiblecomputing''"
      by (rule bspec [OF h3 r(1), THEN mp, OF r(2)])
    show "Title r \<noteq> ''ACCESSIBLECOMPUTING''"
    proof
      assume "Title r = ''ACCESSIBLECOMPUTING''"
      then have "map lower_letter (Title r) = map lower_letter ''ACCESSIBLECOMPUTING''" by (rule arg_cong)
      then have "map lower_letter (Title r) = ''accessiblecomputing''" by (simp only: lower_accessible(4))
      with k show False by (rule notE)
    qed
  qed
  have ta: "Title b \<noteq> ''ACCESSIBLECOMPUTING''" unfolding h2 by simp
  have ka: "map lower_letter (Title b) = ''accessiblecomputing''" unfolding h2 by (rule lower_accessible(2))
  show "GetArticle env ''ACCESSIBLECOMPUTING'' s = (Inr b, s1)"
    by (rule GetArticle_only [OF assms lower_accessible(1) h4 lower_accessible(3) h1 ta ka others])
qed

lemma lookup_store_fields:
  "initialized lookup_store"
  "articles lookup_store = [article_of anarchism_page, article_of accessible_page]"
  by (simp_all add: lookup_store_def Open_sqlite_full_empty_state)

lemma lookup_titles:
  "Title (article_of anarchism_page) = ''Anarchism''"
  "Title (article_of accessible_page) = ''AccessibleComputing''"
  "article_of accessible_page \<noteq> article_of anarchism_page"
  by (simp_all add: article_of_def anarchism_page_def accessible_page_def)

lemma title_case_full:
  "title_case sqlite_full ''anarchism'' = ''Anarchism''"
  "title_case sqlite_full ''accessiblecomputing'' = ''Accessiblecomputing''"
  "title_case sqlite_full ''talk:anarchism'' = ''Talk:anarchism''"
  by (simp_all add: sqlite_full_def ascii_upper_def byte_def)

text \<open>
  On the database that holds \<^verbatim>\<open>Anarchism\<close> and \<^verbatim>\<open>AccessibleComputing\<close>: the exact title
  and the title in lower case find the article, the title of the redirect in capitals
  finds the redirect, the title of the talk page finds nothing.
\<close>

theorem GetArticle_lookup_witness:
  "Open sqlite_full lookup_store = (None, lookup_store)
   \<and> fst (GetArticle sqlite_full ''Anarchism'' lookup_store) = Inr (article_of anarchism_page)
   \<and> sql_lower ''AccessibleComputing'' = ''accessiblecomputing''
   \<and> strings_ToLower sqlite_full ''ACCESSIBLECOMPUTING'' = ''accessiblecomputing''
   \<and> title_case sqlite_full ''anarchism'' = ''Anarchism''
   \<and> fst (GetArticle sqlite_full ''anarchism'' lookup_store) = Inr (article_of anarchism_page)
   \<and> title_case sqlite_full ''accessiblecomputing'' = ''Accessiblecomputing''
   \<and> fst (GetArticle sqlite_full ''ACCESSIBLECOMPUTING'' lookup_store)
       = Inr (article_of accessible_page)
   \<and> fst (GetArticle sqlite_full ''Talk:Anarchism'' lookup_store)
       = Inl (ArticleNotFound ''Talk:Anarchism'')"
proof -
  have o: "Open sqlite_full lookup_store = (None, lookup_store)"
    by (simp add: Open_initialized lookup_store_fields)
  note t = GetArticle_lookup [OF o, of "''Anarchism''" "''AccessibleComputing''" "''Anarchism''"
      "''Talk:Anarchism''" "article_of anarchism_page" "article_of accessible_page"]
  note u = GetArticle_lookup [OF o, of "''Anarchism''" "''ACCESSIBLECOMPUTING''" "''Anarchism''"
      "''Talk:Anarchism''" "article_of anarchism_page" "article_of accessible_page"]
  have h1: "\<exists>r \<in> set (articles lookup_store). Title r = ''Anarchism''"
    by (simp add: lookup_store_fields lookup_titles)
  have h3: "\<forall>r \<in> set (articles lookup_store). \<not> title_matches sqlite_full ''Talk:Anarchism'' r"
    by (simp add: lookup_store_fields lookup_titles title_matches_def strings_ToLower_def
        sqlite_full_def sql_lower_def ascii_lower_def ascii_upper_def byte_def)
  have h5: "article_of anarchism_page \<in> set (articles lookup_store)
      \<and> Title (article_of anarchism_page) = ''Anarchism''
      \<and> (\<forall>r \<in> set (articles lookup_store). r \<noteq> article_of anarchism_page
            \<longrightarrow> map lower_letter (Title r) \<noteq> ''anarchism'')
      \<and> title_case sqlite_full ''anarchism'' = ''Anarchism''"
    by (simp add: lookup_store_fields lookup_titles title_case_full)
  have h6: "article_of accessible_page \<in> set (articles lookup_store)
      \<and> Title (article_of accessible_page) = ''AccessibleComputing''
      \<and> (\<forall>r \<in> set (articles lookup_store). r \<noteq> article_of accessible_page
            \<longrightarrow> map lower_letter (Title r) \<noteq> ''accessiblecomputing'')
      \<and> title_case sqlite_full ''accessiblecomputing'' = ''Accessiblecomputing''"
    by (simp add: lookup_store_fields lookup_titles title_case_full)
  from t [THEN conjunct1, THEN mp, OF h1]
  have c1: "fst (GetArticle sqlite_full ''Anarchism'' lookup_store)
      = Inr (article_of anarchism_page)"
    by (auto simp: lookup_store_fields lookup_titles)
  from t [THEN conjunct2, THEN conjunct1]
  have c2: "sql_lower ''AccessibleComputing'' = ''accessiblecomputing''"
    by (simp only: lower_accessible(2))
  have "\<forall>c \<in> set ''ACCESSIBLECOMPUTING''. byte c < 128" by (simp add: byte_def)
  from u [THEN conjunct2, THEN conjunct2, THEN conjunct1, THEN mp, OF this]
  have c3: "strings_ToLower sqlite_full ''ACCESSIBLECOMPUTING'' = ''accessiblecomputing''"
    by (simp only: lower_accessible(4))
  note rest = t [THEN conjunct2, THEN conjunct2, THEN conjunct2, THEN conjunct2]
  from rest [THEN conjunct1, THEN mp, OF h3]
  have c4: "GetArticle sqlite_full ''Talk:Anarchism'' lookup_store
       = (Inl (ArticleNotFound ''Talk:Anarchism''), lookup_store)" .
  from rest [THEN conjunct2, THEN conjunct1, THEN mp, OF h5]
  have c5: "GetArticle sqlite_full ''anarchism'' lookup_store
      = (Inr (article_of anarchism_page), lookup_store)" .
  from rest [THEN conjunct2, THEN conjunct2, THEN mp, OF h6]
  have c6: "GetArticle sqlite_full ''ACCESSIBLECOMPUTING'' lookup_store
      = (Inr (article_of accessible_page), lookup_store)" .
  from o c1 c2 c3 c4 c5 c6 show ?thesis by (simp add: title_case_full)
qed

section \<open>The article loader: truncation and the filter\<close>

lemma utf8_valid_ascii_prefix: "utf8_valid (replicate n (CHR ''a'') @ xs) = utf8_valid xs"
  by (induction n) (simp_all add: byte_def)

lemma truncate_content_take: "truncate_content t = take maxContent t"
  by (simp add: truncate_content_def)

lemma truncate_content_length: "length (truncate_content t) \<le> maxContent"
  by (simp add: truncate_content_def)

lemma truncate_content_small: "length t \<le> maxContent \<Longrightarrow> truncate_content t = t"
  by (simp add: truncate_content_def)

lemma article_of_fields:
  "ID (article_of p) = page_ID p" "Title (article_of p) = page_Title p"
  "Namespace (article_of p) = NS p" "Content (article_of p) = truncate_content (Text p)"
  "Redirect (article_of p) = first_redirect p"
  by (simp_all add: article_of_def)

lemma indexed_store_fields:
  "index_set indexed_store = {10, 12, 13}" "articles indexed_store = []"
  by (auto simp: indexed_store_def empty_store_def index_set_def)

lemma ProcessArticles_indexed:
  "SyntaxError \<notin> set dump \<Longrightarrow>
   fst (ProcessArticles sqlite_full 0 dump indexed_store) = Returns None
   \<and> articles (snd (ProcessArticles sqlite_full 0 dump indexed_store))
       = apply_upserts [] (kept_rows {10, 12, 13} dump)"
  using ProcessArticles_all [OF sqlite_full_no_fault order_refl, of dump indexed_store]
  by (simp add: indexed_store_fields)

lemma index_set_entries: "index_set s = snd ` set (index_entries s)"
  by (simp add: index_set_def)

lemma big_text_truncated:
  "truncate_content big_text = replicate 10485759 (CHR ''a'') @ [CHR 0xC3]"
  by (simp add: truncate_content_def big_text_def maxContent_def)

text \<open>
  C1, as the code has it. Every row that a run of \<open>ProcessArticles\<close> adds to \<open>articles\<close>
  comes from a page of the dump and holds as content the first 10 MiB of bytes of the
  page's text: never more than 10 MiB, and the whole text when that is 10 MiB or less.
  A longer text is cut after byte 10 MiB, wherever that falls.
\<close>

theorem ProcessArticles_content:
  assumes "r \<in> set (articles (snd (ProcessArticles env limit dump s)))"
    and "r \<notin> set (articles s)"
  shows "\<exists>p. Decoded p \<in> set dump \<and> ID r = page_ID p
           \<and> Content r = take maxContent (Text p)
           \<and> length (Content r) \<le> maxContent
           \<and> (length (Text p) \<le> maxContent \<longrightarrow> Content r = Text p)"
proof -
  from ProcessArticles_origin [OF assms(1)] assms(2)
  obtain p where p: "Decoded p \<in> set dump" "r = article_of p" by blast
  have "ID r = page_ID p \<and> Content r = take maxContent (Text p)
      \<and> length (Content r) \<le> maxContent
      \<and> (length (Text p) \<le> maxContent \<longrightarrow> Content r = Text p)"
    using truncate_content_length [of "Text p"]
    by (simp add: p(2) article_of_fields truncate_content_take)
  with p(1) show ?thesis by blast
qed

text \<open>A page whose text is exactly 10 MiB long is stored with its whole text.\<close>

theorem ProcessArticles_content_witness:
  "article_of exact_page \<in> set (articles (snd (ProcessArticles sqlite_full 0 [Decoded exact_page]
       indexed_store)))
   \<and> article_of exact_page \<notin> set (articles indexed_store)
   \<and> length (Text exact_page) = 10 * 1024 * 1024
   \<and> length (Content (article_of exact_page)) \<le> maxContent
   \<and> Content (article_of exact_page) = Text exact_page"
proof -
  have k: "kept_rows {10, 12, 13} [Decoded exact_page] = [article_of exact_page]"
    by (simp add: kept_rows_Cons kept_rows_Nil kept_def exact_page_def)
  have h1: "article_of exact_page \<in> set (articles (snd (ProcessArticles sqlite_full 0
      [Decoded exact_page] indexed_store)))"
    using ProcessArticles_indexed [of "[Decoded exact_page]"] by (simp add: k upsert_def)
  have h2: "article_of exact_page \<notin> set (articles indexed_store)"
    by (simp add: indexed_store_fields)
  have l: "length (Text exact_page) = 10 * 1024 * 1024"
    by (simp add: exact_page_def)
  from ProcessArticles_content [OF h1 h2]
  have "Content (article_of exact_page) = take maxContent (Text exact_page)
      \<and> length (Content (article_of exact_page)) \<le> maxContent"
    by auto
  with l have "Content (article_of exact_page) = Text exact_page
      \<and> length (Content (article_of exact_page)) \<le> maxContent"
    by (simp add: maxContent_def)
  with h1 h2 l show ?thesis by (simp add: maxContent_def)
qed

text \<open>
  A page whose text is 10 MiB + 1 bytes of valid UTF-8, ending in the two bytes of
  U+00E9: the stored content ends with the first of the two, and is not valid UTF-8.
\<close>

theorem ProcessArticles_utf8_counterexample:
  "utf8_valid (Text big_page)
   \<and> length (Text big_page) = 10 * 1024 * 1024 + 1
   \<and> map Content (articles (snd (ProcessArticles sqlite_full 0 [Decoded big_page] indexed_store)))
       = [replicate 10485759 (CHR ''a'') @ [CHR 0xC3]]
   \<and> \<not> utf8_valid (replicate 10485759 (CHR ''a'') @ [CHR 0xC3])"
proof -
  have k: "kept_rows {10, 12, 13} [Decoded big_page] = [article_of big_page]"
    by (simp add: kept_rows_Cons kept_rows_Nil kept_def big_page_def)
  have t: "Text big_page = big_text" by (simp add: big_page_def)
  have v: "utf8_valid big_text"
    unfolding big_text_def utf8_valid_ascii_prefix by (simp add: byte_def cont_def)
  have n: "\<not> utf8_valid (replicate 10485759 (CHR ''a'') @ [CHR 0xC3])"
    unfolding utf8_valid_ascii_prefix by (simp add: byte_def)
  have l: "length big_text = 10 * 1024 * 1024 + 1" by (simp add: big_text_def)
  have c: "map Content (articles (snd (ProcessArticles sqlite_full 0 [Decoded big_page] indexed_store)))
       = [replicate 10485759 (CHR ''a'') @ [CHR 0xC3]]"
    using ProcessArticles_indexed [of "[Decoded big_page]"]
    by (simp add: k upsert_def article_of_fields t big_text_truncated)
  from v n l c show ?thesis by (simp add: t)
qed

lemma ID_apply_upserts: "ID ` set (apply_upserts rows tx) = ID ` set rows \<union> ID ` set tx"
proof (induction tx arbitrary: rows)
  case Nil
  show ?case by simp
next
  case (Cons a tx)
  have "ID ` set (upsert a rows) = insert (ID a) (ID ` set rows)"
    by (auto simp: upsert_def)
  with Cons.IH [of "upsert a rows"] show ?case by auto
qed

lemma kept_rows_eq:
  "kept_rows S dump = map article_of (filter (\<lambda>p. NS p = 0 \<and> page_ID p \<in> S) (pages dump))"
  by (simp add: kept_rows_def kept_def [abs_def])

lemma pages_mem: "p \<in> set (pages dump) \<longleftrightarrow> Decoded p \<in> set dump"
  by (induction dump) (auto simp: pages_Cons pages_def List.map_filter_simps split: decoded.splits)

lemma first_redirect_eq:
  "first_redirect p = (case page_Redirect p of [] \<Rightarrow> [] | t # ts \<Rightarrow> t)"
  by (simp add: first_redirect_def)

lemma apply_upserts_stays:
  "x \<in> set rows \<Longrightarrow> ID x \<notin> ID ` set tx \<Longrightarrow> x \<in> set (apply_upserts rows tx)"
proof (induction tx arbitrary: rows)
  case Nil
  then show ?case by simp
next
  case (Cons a tx)
  then have "x \<in> set (upsert a rows)" by (auto simp: upsert_def)
  with Cons show ?case by simp
qed

lemma apply_upserts_distinct:
  "distinct (map ID tx) \<Longrightarrow> set tx \<subseteq> set (apply_upserts rows tx)"
proof (induction tx arbitrary: rows)
  case Nil
  show ?case by simp
next
  case (Cons a tx)
  have "a \<in> set (upsert a rows)" by (simp add: upsert_def)
  with Cons.prems have "a \<in> set (apply_upserts (upsert a rows) tx)"
    by (intro apply_upserts_stays) auto
  with Cons show ?case by simp
qed

lemma GetArticle_after_ingest:
  assumes ok: "fst (ProcessArticles env limit dump s) = Returns None"
    and old: "\<forall>r \<in> set (articles s). \<not> title_matches env' title r"
    and new: "\<forall>p. Decoded p \<in> set dump \<and> NS p = 0 \<and> page_ID p \<in> index_set s
                \<longrightarrow> \<not> title_matches env' title (article_of p)"
  shows "fst (GetArticle env' title (snd (ProcessArticles env limit dump s)))
           = Inl (ArticleNotFound title)"
proof -
  let ?s' = "snd (ProcessArticles env limit dump s)"
  have i: "initialized ?s'" by (rule ProcessArticles_success_initialized [OF ok])
  then have o: "Open env' ?s' = (None, ?s')" by (rule Open_initialized)
  have "\<forall>r \<in> set (articles ?s'). \<not> title_matches env' title r"
  proof
    fix r assume "r \<in> set (articles ?s')"
    from ProcessArticles_origin [OF this] old new show "\<not> title_matches env' title r"
      by (auto simp: kept_def)
  qed
  from GetArticle_missing [OF o this] show ?thesis by simp
qed

text \<open>
  When the decoder meets an error that it repeats, the run never returns. If fewer rows
  than a batch were written since the last commit, they stay uncommitted: the table is
  as it was at that commit.
\<close>

lemma articles_loop_hangs:
  assumes nf: "\<forall>f. \<not> fault env f" and lim: "limit \<le> 0"
  shows "SyntaxError \<notin> set pre \<Longrightarrow>
     fst (articles_loop env limit S (pre @ SyntaxError # rest) n ctx s) = Hangs"
proof (induction pre arbitrary: n ctx s)
  case Nil
  show ?case by (simp add: article_step_def)
next
  case (Cons d pre)
  then have ns: "SyntaxError \<notin> set pre" and nd: "d \<noteq> SyntaxError" by auto
  note IH = Cons.IH [OF ns]
  show ?case
  proof (cases d)
    case DecodeError
    with IH show ?thesis by (simp add: article_step_def)
  next
    case SyntaxError
    with nd show ?thesis by simp
  next
    case (Decoded p)
    with IH nf lim show ?thesis by (simp add: article_step_def Let_def)
  qed
qed

lemma articles_loop_open_batch:
  assumes nf: "\<forall>f. \<not> fault env f" and lim: "limit \<le> 0"
  shows "SyntaxError \<notin> set pre \<Longrightarrow> fst ctx + length (kept_rows S pre) < batchSize_articles \<Longrightarrow>
     articles (snd (articles_loop env limit S (pre @ SyntaxError # rest) n ctx s)) = articles s"
proof (induction pre arbitrary: n ctx s)
  case Nil
  show ?case by (simp add: article_step_def say_def)
next
  case (Cons d pre)
  then have ns: "SyntaxError \<notin> set pre" and nd: "d \<noteq> SyntaxError" by auto
  note IH = Cons.IH [OF ns]
  show ?case
  proof (cases d)
    case DecodeError
    with IH [of ctx n "say LogXMLDecodeError s"] Cons.prems(2) show ?thesis
      by (simp add: article_step_def kept_rows_Cons say_def)
  next
    case SyntaxError
    with nd show ?thesis by simp
  next
    case (Decoded p)
    show ?thesis
    proof (cases "kept S p")
      case False
      with Decoded IH [of ctx n s] Cons.prems(2) show ?thesis
        by (auto simp: article_step_def kept_rows_Cons kept_def)
    next
      case True
      with Decoded Cons.prems(2) have b: "\<not> batchSize_articles \<le> Suc (fst ctx)"
        and l: "fst (Suc (fst ctx), snd ctx @ [article_of p]) + length (kept_rows S pre)
                  < batchSize_articles"
        by (simp_all add: kept_rows_Cons)
      from IH [OF l, of "Suc n" s] Decoded True b nf lim show ?thesis
        by (simp add: article_step_def kept_def)
    qed
  qed
qed

lemma ProcessArticles_hangs:
  assumes nf: "\<forall>f. \<not> fault env f" and lim: "limit \<le> 0" and pre: "SyntaxError \<notin> set pre"
  shows "fst (ProcessArticles env limit (pre @ SyntaxError # rest) s) = Hangs"
    and "length (kept_rows (index_set s) pre) < batchSize_articles \<Longrightarrow>
           articles (snd (ProcessArticles env limit (pre @ SyntaxError # rest) s)) = articles s"
proof -
  let ?s2 = "say LogProcessingArticles (say (LogFoundArticles (card (index_set s))) (snd (Open env s)))"
  have a: "articles ?s2 = articles s" using Open_rows [of env s] by (simp add: say_def)
  show "fst (ProcessArticles env limit (pre @ SyntaxError # rest) s) = Hangs"
    by (simp add: ProcessArticles_no_fault [OF nf] articles_loop_hangs [OF nf lim pre])
  assume "length (kept_rows (index_set s) pre) < batchSize_articles"
  then have "fst (0::nat, []::Article list) + length (kept_rows (index_set s) pre) < batchSize_articles"
    by simp
  from articles_loop_open_batch [OF nf lim pre this, of rest 0 ?s2] a
  show "articles (snd (ProcessArticles env limit (pre @ SyntaxError # rest) s)) = articles s"
    by (simp add: ProcessArticles_no_fault [OF nf])
qed

text \<open>
  The dump that breaks off after the redirect: the run never returns, and the redirect,
  written in the open transaction, is not in the table.
\<close>

lemma ProcessArticles_broken_dump:
  "fst (ProcessArticles sqlite_full 0 broken_dump indexed_store) = Hangs
   \<and> articles (snd (ProcessArticles sqlite_full 0 broken_dump indexed_store)) = []"
proof -
  have b: "broken_dump = [Decoded accessible_page] @ SyntaxError # [Decoded anarchism_page]"
    by (simp add: broken_dump_def)
  have p: "SyntaxError \<notin> set [Decoded accessible_page]" by simp
  have k: "length (kept_rows (index_set indexed_store) [Decoded accessible_page]) < batchSize_articles"
    by (simp add: kept_rows_Cons kept_rows_Nil batchSize_articles_def)
  note h = ProcessArticles_hangs [OF sqlite_full_no_fault order_refl p,
      where rest = "[Decoded anarchism_page]" and s = indexed_store]
  from h(1) h(2) [OF k] show ?thesis unfolding b by (simp add: indexed_store_fields)
qed

text \<open>
  C7. \<open>S\<close> below is the set of the article ids of \<open>index_entries\<close>. (1) Every row in
  \<open>articles\<close> after a run of \<open>ProcessArticles\<close> was there before or is the row of a page
  of the dump with namespace 0 and an id in \<open>S\<close>: it has the page's id and title, and its
  redirect is the title of the page's first redirect, or empty when the page has none. (2) On a device without
  faults, without a limit, and with a dump that the decoder reads to its end, the run
  returns without error and has written exactly the rows of those pages, in the order of
  the dump, each replacing the row of the same id; so the id of every such page is in
  the table. (3) If moreover the table was empty and no two pages of the dump share an
  id, a page of the dump has its row in the table if and only if its namespace is 0 and
  its id is in \<open>S\<close>. (4) When all rows had namespace 0 before, all have it after: no page
  of another namespace is in the table. (5) After a run that returned without error, a
  title that matches no earlier row and no kept page, as the title of a page of another
  namespace, is answered by \<open>GetArticle\<close> with \<^verbatim>\<open>article not found\<close>.
\<close>

theorem ProcessArticles_filter:
  "(\<forall>r \<in> set (articles (snd (ProcessArticles env limit dump s))).
       r \<in> set (articles s)
       \<or> (\<exists>p. Decoded p \<in> set dump \<and> NS p = 0 \<and> page_ID p \<in> snd ` set (index_entries s)
              \<and> r = article_of p \<and> ID r = page_ID p \<and> Title r = page_Title p \<and> Namespace r = 0
              \<and> Redirect r = (case page_Redirect p of [] \<Rightarrow> [] | t # ts \<Rightarrow> t)))
   \<and> ((\<forall>f. \<not> fault env f) \<and> limit \<le> 0 \<and> SyntaxError \<notin> set dump \<longrightarrow>
        fst (ProcessArticles env limit dump s) = Returns None
        \<and> articles (snd (ProcessArticles env limit dump s))
            = apply_upserts (articles s)
                (map article_of
                   (filter (\<lambda>p. NS p = 0 \<and> page_ID p \<in> snd ` set (index_entries s)) (pages dump)))
        \<and> (\<forall>p. Decoded p \<in> set dump \<and> NS p = 0 \<and> page_ID p \<in> snd ` set (index_entries s) \<longrightarrow>
               page_ID p \<in> ID ` set (articles (snd (ProcessArticles env limit dump s)))))
   \<and> ((\<forall>f. \<not> fault env f) \<and> limit \<le> 0 \<and> SyntaxError \<notin> set dump
        \<and> articles s = [] \<and> distinct (map page_ID (pages dump)) \<longrightarrow>
        (\<forall>p. Decoded p \<in> set dump \<longrightarrow>
           (article_of p \<in> set (articles (snd (ProcessArticles env limit dump s)))
              \<longleftrightarrow> NS p = 0 \<and> page_ID p \<in> snd ` set (index_entries s))))
   \<and> ((\<forall>r \<in> set (articles s). Namespace r = 0) \<longrightarrow>
        (\<forall>r \<in> set (articles (snd (ProcessArticles env limit dump s))). Namespace r = 0))
   \<and> (fst (ProcessArticles env limit dump s) = Returns None
        \<and> (\<forall>r \<in> set (articles s). \<not> title_matches env' title r)
        \<and> (\<forall>p. Decoded p \<in> set dump \<and> NS p = 0 \<and> page_ID p \<in> snd ` set (index_entries s)
                \<longrightarrow> \<not> title_matches env' title (article_of p)) \<longrightarrow>
        fst (GetArticle env' title (snd (ProcessArticles env limit dump s)))
          = Inl (ArticleNotFound title))"
proof (intro conjI impI ballI)
  fix r assume "r \<in> set (articles (snd (ProcessArticles env limit dump s)))"
  from ProcessArticles_origin [OF this]
  show "r \<in> set (articles s)
       \<or> (\<exists>p. Decoded p \<in> set dump \<and> NS p = 0 \<and> page_ID p \<in> snd ` set (index_entries s)
              \<and> r = article_of p \<and> ID r = page_ID p \<and> Title r = page_Title p \<and> Namespace r = 0
              \<and> Redirect r = (case page_Redirect p of [] \<Rightarrow> [] | t # ts \<Rightarrow> t))"
    unfolding index_set_entries by (auto simp: kept_def article_of_fields first_redirect_eq)
next
  assume a: "(\<forall>f. \<not> fault env f) \<and> limit \<le> 0 \<and> SyntaxError \<notin> set dump"
  then have nf: "\<forall>f. \<not> fault env f" and lim: "limit \<le> 0" and eof: "SyntaxError \<notin> set dump"
    by simp_all
  show "fst (ProcessArticles env limit dump s) = Returns None"
    by (rule ProcessArticles_all(1) [OF nf lim eof])
  show eq: "articles (snd (ProcessArticles env limit dump s))
            = apply_upserts (articles s)
                (map article_of
                   (filter (\<lambda>p. NS p = 0 \<and> page_ID p \<in> snd ` set (index_entries s)) (pages dump)))"
    using ProcessArticles_all(2) [OF nf lim eof, of s]
    by (simp add: kept_rows_eq index_set_entries)
  show "\<forall>p. Decoded p \<in> set dump \<and> NS p = 0 \<and> page_ID p \<in> snd ` set (index_entries s) \<longrightarrow>
               page_ID p \<in> ID ` set (articles (snd (ProcessArticles env limit dump s)))"
  proof (intro allI impI)
    fix p assume p: "Decoded p \<in> set dump \<and> NS p = 0 \<and> page_ID p \<in> snd ` set (index_entries s)"
    then have "article_of p \<in> set (map article_of
        (filter (\<lambda>p. NS p = 0 \<and> page_ID p \<in> snd ` set (index_entries s)) (pages dump)))"
      by (simp add: pages_mem)
    then have "ID (article_of p) \<in> ID ` set (map article_of
        (filter (\<lambda>p. NS p = 0 \<and> page_ID p \<in> snd ` set (index_entries s)) (pages dump)))"
      by (rule imageI)
    then show "page_ID p \<in> ID ` set (articles (snd (ProcessArticles env limit dump s)))"
      unfolding eq ID_apply_upserts by (simp add: article_of_fields)
  qed
next
  assume a: "(\<forall>f. \<not> fault env f) \<and> limit \<le> 0 \<and> SyntaxError \<notin> set dump
        \<and> articles s = [] \<and> distinct (map page_ID (pages dump))"
  then have nf: "\<forall>f. \<not> fault env f" and lim: "limit \<le> 0" and eof: "SyntaxError \<notin> set dump"
    and em: "articles s = []" and di: "distinct (map page_ID (pages dump))"
    by simp_all
  let ?S = "snd ` set (index_entries s)"
  let ?rows = "map article_of (filter (\<lambda>p. NS p = 0 \<and> page_ID p \<in> ?S) (pages dump))"
  have eq: "articles (snd (ProcessArticles env limit dump s)) = apply_upserts [] ?rows"
    using ProcessArticles_all(2) [OF nf lim eof, of s] em
    by (simp add: kept_rows_eq index_set_entries)
  have ids: "map ID ?rows = map page_ID (filter (\<lambda>p. NS p = 0 \<and> page_ID p \<in> ?S) (pages dump))"
    by (simp add: article_of_fields comp_def)
  have dr: "distinct (map ID ?rows)"
    unfolding ids using di by (rule distinct_map_filter)
  show "\<forall>p. Decoded p \<in> set dump \<longrightarrow>
           (article_of p \<in> set (articles (snd (ProcessArticles env limit dump s)))
              \<longleftrightarrow> NS p = 0 \<and> page_ID p \<in> ?S)"
  proof (intro allI impI iffI)
    fix p assume p: "Decoded p \<in> set dump"
      and r: "article_of p \<in> set (articles (snd (ProcessArticles env limit dump s)))"
    from ProcessArticles_origin [OF r] em
    obtain q where q: "Decoded q \<in> set dump" "kept (index_set s) q" "article_of p = article_of q"
      by auto
    from q(3) have "page_ID p = page_ID q" by (simp add: article_of_def)
    moreover from di have "inj_on page_ID (set (pages dump))" by (simp add: distinct_map)
    ultimately have "p = q" using p q(1) by (auto simp: pages_mem dest: inj_onD)
    with q(2) show "NS p = 0 \<and> page_ID p \<in> ?S" by (simp add: kept_def index_set_entries)
  next
    fix p assume p: "Decoded p \<in> set dump" and k: "NS p = 0 \<and> page_ID p \<in> ?S"
    then have "article_of p \<in> set ?rows" by (simp add: pages_mem)
    with apply_upserts_distinct [OF dr, of "[]"]
    show "article_of p \<in> set (articles (snd (ProcessArticles env limit dump s)))"
      unfolding eq by blast
  qed
next
  fix r
  assume old: "\<forall>r \<in> set (articles s). Namespace r = 0"
    and r: "r \<in> set (articles (snd (ProcessArticles env limit dump s)))"
  from ProcessArticles_origin [OF r] old show "Namespace r = 0"
    by (auto simp: kept_def article_of_fields)
next
  assume "fst (ProcessArticles env limit dump s) = Returns None
        \<and> (\<forall>r \<in> set (articles s). \<not> title_matches env' title r)
        \<and> (\<forall>p. Decoded p \<in> set dump \<and> NS p = 0 \<and> page_ID p \<in> snd ` set (index_entries s)
                \<longrightarrow> \<not> title_matches env' title (article_of p))"
  then show "fst (GetArticle env' title (snd (ProcessArticles env limit dump s)))
          = Inl (ArticleNotFound title)"
    by (intro GetArticle_after_ingest) (simp_all add: index_set_entries)
qed

lemma indexed_entries:
  "snd ` set (index_entries indexed_store) = {10, 12, 13}" "articles indexed_store = []"
  by (auto simp: indexed_store_def empty_store_def)

lemma filter_dump_pages:
  "pages filter_dump = [accessible_page, orphan_page, anarchism_page, talk_page]"
  "SyntaxError \<notin> set filter_dump"
  by (simp_all add: filter_dump_def pages_Cons pages_def List.map_filter_simps)

lemma page_fields:
  "NS accessible_page = 0" "page_ID accessible_page = 10"
  "NS orphan_page = 0" "page_ID orphan_page = 99"
  "NS anarchism_page = 0" "page_ID anarchism_page = 12"
  "NS talk_page = 1" "page_ID talk_page = 13"
  by (simp_all add: accessible_page_def orphan_page_def anarchism_page_def talk_page_def)

lemma filter_kept:
  "map article_of (filter (\<lambda>p. NS p = 0 \<and> page_ID p \<in> snd ` set (index_entries indexed_store))
       (pages filter_dump))
     = [article_of accessible_page, article_of anarchism_page]"
  by (simp add: filter_dump_pages indexed_entries page_fields)

lemma sample_titles:
  "Title (article_of accessible_page) = ''AccessibleComputing''"
  "Title (article_of anarchism_page) = ''Anarchism''"
  "ID (article_of accessible_page) = 10" "ID (article_of anarchism_page) = 12"
  "Redirect (article_of accessible_page) = ''Computer accessibility''"
  "Redirect (article_of anarchism_page) = []"
  by (simp_all add: article_of_def accessible_page_def anarchism_page_def first_redirect_def)

lemma talk_no_match:
  "\<not> title_matches sqlite_full ''Talk:Anarchism'' (article_of accessible_page)"
  "\<not> title_matches sqlite_full ''Talk:Anarchism'' (article_of anarchism_page)"
  by (simp_all add: sample_titles title_matches_def strings_ToLower_def
        sqlite_full_def sql_lower_def ascii_lower_def ascii_upper_def byte_def)

text \<open>
  A dump of a redirect, a decoding error, an article that the index does not list, an
  article and a talk page, the index listing the ids 10, 12 and 13: the redirect and the
  article are stored; the article with the id 99, which no index entry bears, and the
  talk page, whose id the index lists, are not; the title of the talk page is not found.
\<close>

theorem ProcessArticles_filter_witness:
  "(\<forall>f. \<not> fault sqlite_full f) \<and> (0::int) \<le> 0 \<and> SyntaxError \<notin> set filter_dump
   \<and> articles indexed_store = [] \<and> distinct (map page_ID (pages filter_dump))
   \<and> index_entries indexed_store = [(597, 10), (597, 12), (597, 13)]
   \<and> Decoded orphan_page \<in> set filter_dump \<and> NS orphan_page = 0 \<and> page_ID orphan_page = 99
   \<and> Decoded talk_page \<in> set filter_dump \<and> NS talk_page = 1 \<and> page_ID talk_page = 13
   \<and> fst (ProcessArticles sqlite_full 0 filter_dump indexed_store) = Returns None
   \<and> articles (snd (ProcessArticles sqlite_full 0 filter_dump indexed_store))
       = [article_of accessible_page, article_of anarchism_page]
   \<and> article_of orphan_page \<notin> set (articles (snd (ProcessArticles sqlite_full 0 filter_dump
         indexed_store)))
   \<and> article_of talk_page \<notin> set (articles (snd (ProcessArticles sqlite_full 0 filter_dump
         indexed_store)))
   \<and> Redirect (article_of accessible_page) = ''Computer accessibility''
   \<and> Redirect (article_of anarchism_page) = []
   \<and> fst (GetArticle sqlite_full ''Talk:Anarchism''
        (snd (ProcessArticles sqlite_full 0 filter_dump indexed_store)))
       = Inl (ArticleNotFound ''Talk:Anarchism'')"
proof -
  note t = ProcessArticles_filter [of sqlite_full 0 filter_dump indexed_store sqlite_full
      "''Talk:Anarchism''"]
  have h0: "(\<forall>f. \<not> fault sqlite_full f) \<and> (0::int) \<le> 0 \<and> SyntaxError \<notin> set filter_dump"
    by (simp add: sqlite_full_no_fault filter_dump_pages)
  have d: "articles indexed_store = [] \<and> distinct (map page_ID (pages filter_dump))"
    by (simp add: indexed_entries filter_dump_pages page_fields)
  have ie: "index_entries indexed_store = [(597, 10), (597, 12), (597, 13)]"
    by (simp add: indexed_store_def empty_store_def)
  have pg: "Decoded orphan_page \<in> set filter_dump \<and> NS orphan_page = 0 \<and> page_ID orphan_page = 99
      \<and> Decoded talk_page \<in> set filter_dump \<and> NS talk_page = 1 \<and> page_ID talk_page = 13"
    by (simp add: filter_dump_def page_fields)
  note t2 = t [THEN conjunct2, THEN conjunct1, THEN mp, OF h0]
  from t2 have c1: "fst (ProcessArticles sqlite_full 0 filter_dump indexed_store) = Returns None"
    by (rule conjunct1)
  from t2 have "articles (snd (ProcessArticles sqlite_full 0 filter_dump indexed_store))
       = apply_upserts (articles indexed_store)
           (map article_of
              (filter (\<lambda>p. NS p = 0 \<and> page_ID p \<in> snd ` set (index_entries indexed_store))
                 (pages filter_dump)))"
    by (rule conjunct2 [THEN conjunct1])
  then have c2: "articles (snd (ProcessArticles sqlite_full 0 filter_dump indexed_store))
       = [article_of accessible_page, article_of anarchism_page]"
    by (simp only: filter_kept) (simp add: indexed_entries upsert_def sample_titles)
  from h0 d have h3: "(\<forall>f. \<not> fault sqlite_full f) \<and> (0::int) \<le> 0 \<and> SyntaxError \<notin> set filter_dump
        \<and> articles indexed_store = [] \<and> distinct (map page_ID (pages filter_dump))"
    by blast
  note t3 = t [THEN conjunct2, THEN conjunct2, THEN conjunct1, THEN mp, OF h3]
  from t3 pg have c3: "article_of orphan_page \<notin> set (articles (snd (ProcessArticles sqlite_full 0
      filter_dump indexed_store)))"
    by (simp add: indexed_entries)
  from t3 pg have c4: "article_of talk_page \<notin> set (articles (snd (ProcessArticles sqlite_full 0
      filter_dump indexed_store)))"
    by simp
  have h1: "\<forall>r \<in> set (articles indexed_store). \<not> title_matches sqlite_full ''Talk:Anarchism'' r"
    by (simp add: indexed_entries)
  have h2: "\<forall>p. Decoded p \<in> set filter_dump \<and> NS p = 0
      \<and> page_ID p \<in> snd ` set (index_entries indexed_store)
      \<longrightarrow> \<not> title_matches sqlite_full ''Talk:Anarchism'' (article_of p)"
    using talk_no_match by (auto simp: filter_dump_def page_fields indexed_entries)
  from c1 h1 h2 have h5: "fst (ProcessArticles sqlite_full 0 filter_dump indexed_store) = Returns None
        \<and> (\<forall>r \<in> set (articles indexed_store). \<not> title_matches sqlite_full ''Talk:Anarchism'' r)
        \<and> (\<forall>p. Decoded p \<in> set filter_dump \<and> NS p = 0
              \<and> page_ID p \<in> snd ` set (index_entries indexed_store)
              \<longrightarrow> \<not> title_matches sqlite_full ''Talk:Anarchism'' (article_of p))"
    by blast
  note c5 = t [THEN conjunct2, THEN conjunct2, THEN conjunct2, THEN conjunct2, THEN mp, OF h5]
  from h0 d ie pg c1 c2 c3 c4 c5 show ?thesis by (simp add: sample_titles)
qed

section \<open>Open is idempotent\<close>

lemma schema_eff: "schema (eff evs txc s) = schema s"
  by (simp add: schema_def eff_def)

lemma schema_effA: "schema (effA evs txc s) = schema s"
  by (simp add: schema_def effA_def)

lemma operations_keep_schema:
  assumes "initialized s"
  shows "snd (GetArticle env title s) = s"
    and "snd (GetArticleByID env i s) = s"
    and "schema (snd (SearchTitles env query limit s)) = schema s"
    and "schema (snd (LoadIndex env limit ls s)) = schema s"
    and "schema (snd (ProcessArticles env limit dump s)) = schema s"
proof -
  from assms show "snd (GetArticle env title s) = s"
    by (simp add: GetArticle_def Open_initialized Let_def split: option.splits)
  from assms show "snd (GetArticleByID env i s) = s"
    by (simp add: GetArticleByID_def Open_initialized split: option.splits)
  from assms show "schema (snd (SearchTitles env query limit s)) = schema s"
    by (simp add: SearchTitles_initialized Let_def schema_def say_def split: option.splits)
  obtain e evs txc
    where "\<And>t. initialized t \<Longrightarrow> LoadIndex env limit ls t = (e, eff evs txc t)"
    using LoadIndex_shape by metis
  with assms show "schema (snd (LoadIndex env limit ls s)) = schema s"
    by (simp add: schema_eff)
  obtain e' evs' txc'
    where "\<And>t. initialized t \<Longrightarrow> index_set t = index_set s \<Longrightarrow>
        ProcessArticles env limit dump t = (e', effA evs' txc' t)"
    using ProcessArticles_shape [of "index_set s" env limit dump] by metis
  with assms show "schema (snd (ProcessArticles env limit dump s)) = schema s"
    by (simp add: schema_effA)
qed

text \<open>
  C10. Once \<open>Open\<close> has returned without error, the handle is initialised, and every
  later \<open>Open\<close>, whatever the environment does then, returns without error at once and
  leaves the whole state as it is: connection, schema objects, triggers, full-text table,
  rows, the detected \<open>ftsVersion\<close> and the log (nothing is logged, so neither
  \<open>createTables\<close> nor the capability probe ran). The operations of the package, which
  all begin with \<open>Open\<close>, then leave the schema alone; the two lookups leave the whole
  state alone.
\<close>

theorem Open_idempotent:
  "Open env s = (None, s') \<Longrightarrow>
     initialized s' \<and> Open env' s' = (None, s')
     \<and> snd (GetArticle env' title s') = s'
     \<and> snd (GetArticleByID env' i s') = s'
     \<and> schema (snd (SearchTitles env' query limit s')) = schema s'
     \<and> schema (snd (LoadIndex env' limit ls s')) = schema s'
     \<and> schema (snd (ProcessArticles env' limit dump s')) = schema s'"
  using Open_success_initialized [of env s s'] Open_initialized [of s' env']
    operations_keep_schema [of s']
  by blast

text \<open>The first \<open>Open\<close> of a new database succeeds; the second changes nothing.\<close>

theorem Open_idempotent_witness:
  "Open sqlite_full empty_store = (None, snd (Open sqlite_full empty_store))
   \<and> initialized (snd (Open sqlite_full empty_store))
   \<and> Open sqlite_full (snd (Open sqlite_full empty_store))
       = (None, snd (Open sqlite_full empty_store))
   \<and> schema (snd (SearchTitles sqlite_full ''Anarch'' 5 (snd (Open sqlite_full empty_store))))
       = schema (snd (Open sqlite_full empty_store))"
proof -
  have h: "Open sqlite_full empty_store = (None, snd (Open sqlite_full empty_store))"
    using Open_sqlite_full_empty by (simp add: prod_eq_iff)
  note t = Open_idempotent [OF h, of sqlite_full "''Anarchism''" 10 "''Anarch''" 5
      sample_index sample_dump]
  from t have "initialized (snd (Open sqlite_full empty_store))
   \<and> Open sqlite_full (snd (Open sqlite_full empty_store))
       = (None, snd (Open sqlite_full empty_store))
   \<and> schema (snd (SearchTitles sqlite_full ''Anarch'' 5 (snd (Open sqlite_full empty_store))))
       = schema (snd (Open sqlite_full empty_store))"
    by blast
  with h show ?thesis by blast
qed

end
